theory Spec2Isabelle
  imports Complex_Main "HOL-Library.Sublist"
begin

section \<open>Data model\<close>

text \<open>
  The client's \<^verbatim>\<open>Message\<close> type of \<^verbatim>\<open>src/app/page.tsx\<close>. The field \<open>id\<close> of the
  source is \<open>msg_id\<close> here (\<open>id\<close> is the identity function of HOL). The source keeps
  \<open>created_at\<close> as an ISO string and only ever reads it through
  \<^verbatim>\<open>new Date(created_at).getTime()\<close>; the record holds that time value, an integer
  number of milliseconds since the epoch. \<open>reply_to\<close> is \<^verbatim>\<open>string | null\<close>, with
  \<open>None\<close> for \<^verbatim>\<open>null\<close>.
\<close>

record message =
  msg_id :: string
  content :: string
  created_at :: int
  reply_to :: "string option"

text \<open>
  The component's state (the \<^verbatim>\<open>useState\<close> hooks). \<open>theme\<close> is a string: the
  TypeScript union type is erased at run time, and the value read back from
  \<^verbatim>\<open>localStorage\<close> is cast to it unchecked.
\<close>

record state =
  messages :: "message list"
  newMessage :: string
  isLoading :: bool
  theme :: string
  replyingTo :: "message option"
  showTooltip :: bool

definition initial_state :: state where
  "initial_state =
     \<lparr>messages = [], newMessage = [], isLoading = False, theme = ''dark'',
      replyingTo = None, showTooltip = False\<rparr>"

section \<open>Client-side expiry\<close>

text \<open>
  \<^verbatim>\<open>diffMinutes = (now.getTime() - messageTime.getTime()) / 1000 / 60\<close>. The source
  divides in double precision; both divisions round monotonically, \<open>120000 / 1000 / 60\<close>
  is exactly \<open>2\<close> and \<open>119999 / 1000 / 60\<close> is far below it, so on integer millisecond
  inputs the comparison with \<open>2\<close> agrees with the exact quotient used here.
\<close>

definition diffMinutes :: "int \<Rightarrow> message \<Rightarrow> real" where
  "diffMinutes now msg = real_of_int (now - created_at msg) / 1000 / 60"

text \<open>The updater that \<^verbatim>\<open>removeExpiredMessages\<close> passes to \<^verbatim>\<open>setMessages\<close>.\<close>

definition removeExpiredMessages :: "int \<Rightarrow> message list \<Rightarrow> message list" where
  "removeExpiredMessages now current = filter (\<lambda>msg. diffMinutes now msg < 2) current"

definition removeExpiredMessages_tick :: "int \<Rightarrow> state \<Rightarrow> state" where
  "removeExpiredMessages_tick now s = s\<lparr>messages := removeExpiredMessages now (messages s)\<rparr>"

section \<open>Strings\<close>

text \<open>
  A JavaScript string is held as the byte list of its UTF-8 encoding, so an Isabelle
  string literal is the ASCII string it shows. \<^verbatim>\<open>String.prototype.trim\<close> strips the
  code points of WhiteSpace and LineTerminator from both ends: U+0009 to U+000D, U+0020,
  U+00A0, U+1680, U+2000 to U+200A, U+2028, U+2029, U+202F, U+205F, U+3000 and U+FEFF.
  \<open>white_space\<close> lists their encodings. No encoding is a prefix or a suffix of a longer
  well-formed sequence, so stripping encodings from the ends of the byte list strips the
  code points from the ends of the string.
\<close>

definition white_space :: "string list" where
  "white_space =
     [[CHR 0x09], [CHR 0x0A], [CHR 0x0B], [CHR 0x0C], [CHR 0x0D], [CHR 0x20],
      [CHR 0xC2, CHR 0xA0],
      [CHR 0xE1, CHR 0x9A, CHR 0x80],
      [CHR 0xE2, CHR 0x80, CHR 0x80], [CHR 0xE2, CHR 0x80, CHR 0x81],
      [CHR 0xE2, CHR 0x80, CHR 0x82], [CHR 0xE2, CHR 0x80, CHR 0x83],
      [CHR 0xE2, CHR 0x80, CHR 0x84], [CHR 0xE2, CHR 0x80, CHR 0x85],
      [CHR 0xE2, CHR 0x80, CHR 0x86], [CHR 0xE2, CHR 0x80, CHR 0x87],
      [CHR 0xE2, CHR 0x80, CHR 0x88], [CHR 0xE2, CHR 0x80, CHR 0x89],
      [CHR 0xE2, CHR 0x80, CHR 0x8A],
      [CHR 0xE2, CHR 0x80, CHR 0xA8], [CHR 0xE2, CHR 0x80, CHR 0xA9],
      [CHR 0xE2, CHR 0x80, CHR 0xAF],
      [CHR 0xE2, CHR 0x81, CHR 0x9F],
      [CHR 0xE3, CHR 0x80, CHR 0x80],
      [CHR 0xEF, CHR 0xBB, CHR 0xBF]]"

text \<open>
  What is left of \<open>s\<close> after the first element of \<open>ws\<close> it starts with, if there is
  one.
\<close>

definition after_first :: "string list \<Rightarrow> string \<Rightarrow> string option" where
  "after_first ws s =
     (case find (\<lambda>w. w \<noteq> [] \<and> take (length w) s = w) ws of
        None \<Rightarrow> None
      | Some w \<Rightarrow> Some (drop (length w) s))"

text \<open>Strip elements of \<open>ws\<close> from the front of \<open>s\<close> for as long as there is one.\<close>

function strip :: "string list \<Rightarrow> string \<Rightarrow> string" where
  "strip ws s = (case after_first ws s of None \<Rightarrow> s | Some rest \<Rightarrow> strip ws rest)"
  by pat_completeness auto
termination
proof (relation "measure (\<lambda>(ws, s). length s)")
  show "wf (measure (\<lambda>(ws, s). length s))"
    by simp
next
  fix ws :: "string list" and s rest :: string
  assume "after_first ws s = Some rest"
  then obtain w where w: "w \<noteq> []" "take (length w) s = w" "rest = drop (length w) s"
    by (auto simp: after_first_def find_Some_iff split: option.splits)
  from w(2) have "length w \<le> length s"
    by (metis length_take min.cobounded1)
  with w(1) have "length (drop (length w) s) < length s"
    by (cases w) simp_all
  with w(3) show "((ws, rest), (ws, s)) \<in> measure (\<lambda>(ws, s). length s)"
    by simp
qed

declare strip.simps [simp del]

definition trimStart :: "string \<Rightarrow> string" where
  "trimStart s = strip white_space s"

definition trimEnd :: "string \<Rightarrow> string" where
  "trimEnd s = rev (strip (map rev white_space) (rev s))"

definition trim :: "string \<Rightarrow> string" where
  "trim s = trimEnd (trimStart s)"

text \<open>The decimal rendering of a number inside a template literal.\<close>

definition digit_char :: "nat \<Rightarrow> char" where
  "digit_char d = char_of (48 + d)"

function string_of_nat :: "nat \<Rightarrow> string" where
  "string_of_nat n =
     (if n < 10 then [digit_char n] else string_of_nat (n div 10) @ [digit_char (n mod 10)])"
  by pat_completeness auto
termination
  by (relation "measure (\<lambda>n. n)") auto

declare string_of_nat.simps [simp del]

definition string_of_int :: "int \<Rightarrow> string" where
  "string_of_int i =
     (if i < 0 then CHR ''-'' # string_of_nat (nat (- i)) else string_of_nat (nat i))"

section \<open>Realtime event handlers\<close>

text \<open>
  The updaters of the \<^verbatim>\<open>INSERT\<close> and \<^verbatim>\<open>DELETE\<close> subscriptions; the first argument
  is \<^verbatim>\<open>payload.new\<close>, respectively \<^verbatim>\<open>payload.old.id\<close>.
\<close>

definition insertHandler :: "message \<Rightarrow> message list \<Rightarrow> message list" where
  "insertHandler payload_new current =
     (if list_ex (\<lambda>msg. msg_id msg = msg_id payload_new) current then current
      else payload_new # current)"

definition deleteHandler :: "string \<Rightarrow> message list \<Rightarrow> message list" where
  "deleteHandler payload_old_id current =
     filter (\<lambda>msg. msg_id msg \<noteq> payload_old_id) current"

definition on_insert :: "message \<Rightarrow> state \<Rightarrow> state" where
  "on_insert payload_new s = s\<lparr>messages := insertHandler payload_new (messages s)\<rparr>"

definition on_delete :: "string \<Rightarrow> state \<Rightarrow> state" where
  "on_delete payload_old_id s = s\<lparr>messages := deleteHandler payload_old_id (messages s)\<rparr>"

section \<open>Sending a message\<close>

text \<open>
  What the client SDK resolves to: \<^verbatim>\<open>{ data, error }\<close>, each possibly \<^verbatim>\<open>null\<close>.
  A non-null \<open>data\<close> (an object or an array) and a non-null \<open>error\<close> are truthy.
\<close>

record 'a response =
  data :: "'a option"
  error :: "string option"

text \<open>The object handed to \<^verbatim>\<open>.insert\<close>.\<close>

record insert_values =
  ins_content :: string
  ins_reply_to :: "string option"

text \<open>
  \<^verbatim>\<open>handleSendMessage\<close> is asynchronous: it runs up to the \<^verbatim>\<open>await\<close>, other event
  handlers may run, and it resumes when the insert settles. The constants that the
  closure carries over the \<^verbatim>\<open>await\<close> are a \<open>pending_send\<close>.
\<close>

record pending_send =
  optimisticMessage :: message
  messageContent :: string
  currentReplyTo :: "message option"

text \<open>The template literal \<^verbatim>\<open>`temp-${Date.now()}`\<close>, for the reading \<open>t\<close> of the clock.\<close>

definition temp_id :: "int \<Rightarrow> string" where
  "temp_id t = ''temp-'' @ string_of_int t"

text \<open>\<^verbatim>\<open>replyingTo?.id || null\<close>: an empty id is falsy and gives \<^verbatim>\<open>null\<close>.\<close>

definition reply_id_or_null :: "message option \<Rightarrow> string option" where
  "reply_id_or_null r =
     (case r of None \<Rightarrow> None
      | Some m \<Rightarrow> if msg_id m = [] then None else Some (msg_id m))"

text \<open>
  The part before the \<^verbatim>\<open>await\<close>. \<open>t_id\<close> is the reading of \<^verbatim>\<open>Date.now()\<close> in the
  temporary id and \<open>t_created\<close> that of \<^verbatim>\<open>new Date()\<close> in \<open>created_at\<close>. The result
  is the new state and, when the guard lets the send through, the insert issued
  together with what the continuation needs.
\<close>

definition handleSendMessage_start ::
  "int \<Rightarrow> int \<Rightarrow> state \<Rightarrow> state \<times> (insert_values \<times> pending_send) option" where
  "handleSendMessage_start t_id t_created s =
     (if trim (newMessage s) = [] \<or> isLoading s then (s, None)
      else
        let messageContent = trim (newMessage s);
            optimisticMessage =
              \<lparr>msg_id = temp_id t_id, content = messageContent,
               created_at = t_created, reply_to = reply_id_or_null (replyingTo s)\<rparr>;
            currentReplyTo = replyingTo s
        in (s\<lparr>isLoading := True, newMessage := [], replyingTo := None,
               messages := optimisticMessage # messages s\<rparr>,
            Some (\<lparr>ins_content = messageContent,
                   ins_reply_to = reply_id_or_null currentReplyTo\<rparr>,
                  \<lparr>optimisticMessage = optimisticMessage, messageContent = messageContent,
                   currentReplyTo = currentReplyTo\<rparr>)))"

text \<open>The part after the \<^verbatim>\<open>await\<close>, applied to the state of that moment.\<close>

definition handleSendMessage_settle :: "pending_send \<Rightarrow> message response \<Rightarrow> state \<Rightarrow> state" where
  "handleSendMessage_settle p r s =
     (let s' =
        (case error r of
           Some e \<Rightarrow>
             s\<lparr>messages :=
                  filter (\<lambda>msg. msg_id msg \<noteq> msg_id (optimisticMessage p)) (messages s),
               newMessage := messageContent p,
               replyingTo := currentReplyTo p\<rparr>
         | None \<Rightarrow>
             (case data r of
                Some d \<Rightarrow>
                  s\<lparr>messages :=
                       map (\<lambda>msg. if msg_id msg = msg_id (optimisticMessage p) then d else msg)
                         (messages s)\<rparr>
              | None \<Rightarrow> s))
      in s'\<lparr>isLoading := False\<rparr>)"

section \<open>Theme\<close>

text \<open>
  The browser state the component touches: \<^verbatim>\<open>localStorage\<close> and the
  \<^verbatim>\<open>data-theme\<close> attribute of the document element.
\<close>

record browser =
  localStorage :: "string \<Rightarrow> string option"
  data_theme :: "string option"

definition themes :: "string list" where
  "themes = [''dark'', ''light'', ''golden'', ''sonali'']"

text \<open>\<^verbatim>\<open>Array.prototype.indexOf\<close>: the first index, or \<open>-1\<close>.\<close>

primrec indexOf :: "'a list \<Rightarrow> 'a \<Rightarrow> int" where
  "indexOf [] x = - 1"
| "indexOf (y # ys) x =
     (if y = x then 0 else (let i = indexOf ys x in if i < 0 then - 1 else i + 1))"

text \<open>
  \<open>currentIndex + 1\<close> is never negative, so JavaScript's remainder is \<open>mod\<close> and the
  index is within the array.
\<close>

definition toggleTheme :: "state \<times> browser \<Rightarrow> state \<times> browser" where
  "toggleTheme sb =
     (let (s, b) = sb;
          currentIndex = indexOf themes (theme s);
          nextTheme = themes ! nat ((currentIndex + 1) mod int (length themes))
      in (s\<lparr>theme := nextTheme\<rparr>,
          b\<lparr>data_theme := Some nextTheme,
            localStorage := (localStorage b)(''theme'' \<mapsto> nextTheme)\<rparr>))"

text \<open>
  The theme part of the mount effect: \<^verbatim>\<open>if (savedTheme)\<close> is false for \<^verbatim>\<open>null\<close> and
  for the empty string.
\<close>

definition restore_theme :: "state \<times> browser \<Rightarrow> state \<times> browser" where
  "restore_theme sb =
     (let (s, b) = sb in
      case localStorage b ''theme'' of
        Some savedTheme \<Rightarrow>
          if savedTheme \<noteq> [] then (s\<lparr>theme := savedTheme\<rparr>, b\<lparr>data_theme := Some savedTheme\<rparr>)
          else (s, b\<lparr>data_theme := Some ''dark''\<rparr>)
      | None \<Rightarrow> (s, b\<lparr>data_theme := Some ''dark''\<rparr>))"

text \<open>A (re)load: the component state starts afresh, the browser's storage stays.\<close>

definition load :: "browser \<Rightarrow> state \<times> browser" where
  "load b = restore_theme (initial_state, b)"

section \<open>Rendering the reply preview\<close>

definition getRepliedMessage :: "message list \<Rightarrow> string option \<Rightarrow> message option" where
  "getRepliedMessage msgs replyToId =
     (case replyToId of
        None \<Rightarrow> None
      | Some i \<Rightarrow> if i = [] then None else find (\<lambda>msg. msg_id msg = i) msgs)"

text \<open>
  The children of a message card's text column, top to bottom: the header row (sender
  label, time label, reply button), the reply preview when \<open>repliedMessage\<close> is truthy,
  and the message's own content.
\<close>

datatype element = HeaderRow | ReplyPreview string | ContentParagraph string

definition render_message :: "message list \<Rightarrow> message \<Rightarrow> element list" where
  "render_message msgs m =
     (let repliedMessage = getRepliedMessage msgs (reply_to m) in
      [HeaderRow]
      @ (case repliedMessage of Some r \<Rightarrow> [ReplyPreview (content r)] | None \<Rightarrow> [])
      @ [ContentParagraph (content m)])"

datatype view = EmptyPlaceholder | MessageCards "element list list"

definition render_main :: "state \<Rightarrow> view" where
  "render_main s =
     (if messages s = [] then EmptyPlaceholder
      else MessageCards (map (render_message (messages s)) (messages s)))"

section \<open>The store\<close>

text \<open>
  A row of \<^verbatim>\<open>public.messages\<close> (scripts 001 and 003): \<open>id\<close> is the primary key,
  \<open>content\<close> is \<^verbatim>\<open>NOT NULL\<close>, \<open>created_at\<close> and \<open>reply_to\<close> are nullable. Times are
  in milliseconds, as on the client. The table is the list of its rows.
\<close>

record row =
  row_id :: string
  row_content :: string
  row_created_at :: "int option"
  row_reply_to :: "string option"

text \<open>
  \<^verbatim>\<open>reply_to UUID REFERENCES public.messages(id) ON DELETE SET NULL\<close>: what happens to
  a row that stays when the rows with the ids \<open>deleted\<close> go.
\<close>

definition on_delete_set_null :: "string list \<Rightarrow> row \<Rightarrow> row" where
  "on_delete_set_null deleted r =
     (case row_reply_to r of
        None \<Rightarrow> r
      | Some i \<Rightarrow> if i \<in> set deleted then r\<lparr>row_reply_to := None\<rparr> else r)"

text \<open>\<^verbatim>\<open>DELETE FROM public.messages WHERE P\<close>, with the referential action.\<close>

definition delete_where :: "(row \<Rightarrow> bool) \<Rightarrow> row list \<Rightarrow> row list" where
  "delete_where P tbl =
     (let deleted = map row_id (filter P tbl)
      in map (on_delete_set_null deleted) (filter (\<lambda>r. \<not> P r) tbl))"

text \<open>
  \<^verbatim>\<open>created_at < NOW() - INTERVAL '2 minutes'\<close>; a comparison with \<^verbatim>\<open>NULL\<close> is not
  true.
\<close>

definition older_than_2_minutes :: "int \<Rightarrow> row \<Rightarrow> bool" where
  "older_than_2_minutes now r =
     (case row_created_at r of None \<Rightarrow> False | Some t \<Rightarrow> t < now - 2 * 60 * 1000)"

definition delete_old_messages :: "int \<Rightarrow> row list \<Rightarrow> row list" where
  "delete_old_messages now tbl = delete_where (older_than_2_minutes now) tbl"

text \<open>The deletion of the row with primary key \<open>d\<close>.\<close>

definition delete_message :: "string \<Rightarrow> row list \<Rightarrow> row list" where
  "delete_message d tbl = delete_where (\<lambda>r. row_id r = d) tbl"

section \<open>The initial fetch\<close>

text \<open>\<^verbatim>\<open>.gte("created_at", twoMinutesAgo)\<close>.\<close>

definition gte_created_at :: "int \<Rightarrow> row \<Rightarrow> bool" where
  "gte_created_at bound r =
     (case row_created_at r of None \<Rightarrow> False | Some t \<Rightarrow> bound \<le> t)"

text \<open>
  \<^verbatim>\<open>.order("created_at", { ascending: false })\<close>: descending, \<^verbatim>\<open>NULL\<close>s first (the
  default of a descending order). The store leaves the order of rows with equal
  \<open>created_at\<close> open; the model keeps them in table order.
\<close>

definition not_after :: "row \<Rightarrow> row \<Rightarrow> bool" where
  "not_after a b =
     (case row_created_at a of
        None \<Rightarrow> True
      | Some x \<Rightarrow> (case row_created_at b of None \<Rightarrow> False | Some y \<Rightarrow> y \<le> x))"

primrec insert_desc :: "row \<Rightarrow> row list \<Rightarrow> row list" where
  "insert_desc r [] = [r]"
| "insert_desc r (x # xs) = (if not_after r x then r # x # xs else x # insert_desc r xs)"

definition order_created_at_desc :: "row list \<Rightarrow> row list" where
  "order_created_at_desc rows = foldr insert_desc rows []"

definition fetchMessages_query :: "int \<Rightarrow> row list \<Rightarrow> row list" where
  "fetchMessages_query now tbl =
     (let twoMinutesAgo = now - 2 * 60 * 1000
      in take 100 (order_created_at_desc (filter (gte_created_at twoMinutesAgo) tbl)))"

text \<open>
  A row as the client reads it. \<^verbatim>\<open>new Date(null).getTime()\<close> is \<open>0\<close>.
\<close>

definition message_of_row :: "row \<Rightarrow> message" where
  "message_of_row r =
     \<lparr>msg_id = row_id r, content = row_content r,
      created_at = (case row_created_at r of None \<Rightarrow> 0 | Some t \<Rightarrow> t),
      reply_to = row_reply_to r\<rparr>"

text \<open>\<^verbatim>\<open>if (data && !error) setMessages(data)\<close>; otherwise the list stays.\<close>

definition fetchMessages_settle :: "row list response \<Rightarrow> state \<Rightarrow> state" where
  "fetchMessages_settle r s =
     (case data r of
        Some d \<Rightarrow> (case error r of None \<Rightarrow> s\<lparr>messages := map message_of_row d\<rparr> | Some e \<Rightarrow> s)
      | None \<Rightarrow> s)"

text \<open>The fetch against the table \<open>tbl\<close> at time \<open>now\<close>, when the query succeeds.\<close>

definition fetchMessages :: "int \<Rightarrow> row list \<Rightarrow> state \<Rightarrow> state" where
  "fetchMessages now tbl s =
     fetchMessages_settle \<lparr>data = Some (fetchMessages_query now tbl), error = None\<rparr> s"

section \<open>Strings: properties\<close>

lemma after_first_white_space_all:
  "list_all (\<lambda>w. after_first white_space (w @ r) = Some r) white_space"
  by (simp add: white_space_def after_first_def)

lemma after_first_white_space:
  "w \<in> set white_space \<Longrightarrow> after_first white_space (w @ r) = Some r"
  using after_first_white_space_all [of r] by (simp add: list_all_iff)

lemma after_first_rev_white_space_all:
  "list_all (\<lambda>w. after_first (map rev white_space) (rev w @ r) = Some r) white_space"
  by (simp add: white_space_def after_first_def)

lemma after_first_rev_white_space:
  "w \<in> set white_space \<Longrightarrow> after_first (map rev white_space) (rev w @ r) = Some r"
  using after_first_rev_white_space_all [of r] by (simp add: list_all_iff)


lemma find_SomeD: "find P xs = Some x \<Longrightarrow> x \<in> set xs \<and> P x"
  by (induction xs) (auto split: if_splits)

lemma after_first_SomeD:
  assumes "after_first ws s = Some rest"
  obtains w where "w \<in> set ws" "w \<noteq> []" "s = w @ rest"
proof -
  from assms obtain w where f: "find (\<lambda>w. w \<noteq> [] \<and> take (length w) s = w) ws = Some w"
    and r: "rest = drop (length w) s"
    by (auto simp: after_first_def split: option.splits)
  from f have "w \<in> set ws" and "w \<noteq> [] \<and> take (length w) s = w"
    by (auto dest: find_SomeD)
  with r have w: "w \<in> set ws" "w \<noteq> []" "take (length w) s = w"
      "rest = drop (length w) s"
    by simp_all
  from w(3,4) have "s = w @ rest"
    by (metis append_take_drop_id)
  with w(1,2) show thesis by (rule that)
qed

lemma after_first_None_iff:
  "after_first ws s = None \<longleftrightarrow> (\<forall>w\<in>set ws. w \<noteq> [] \<longrightarrow> take (length w) s \<noteq> w)"
  by (auto simp: after_first_def find_None_iff split: option.splits dest: find_SomeD)

lemma after_first_Nil: "after_first ws [] = None"
  by (auto simp: after_first_None_iff)

lemma strip_Nil: "strip ws [] = []"
  by (simp add: strip.simps [of ws "[]"] after_first_Nil)

lemma strip_Some: "after_first ws s = Some rest \<Longrightarrow> strip ws s = strip ws rest"
  by (simp add: strip.simps [of ws s])

lemma strip_None: "after_first ws s = None \<Longrightarrow> strip ws s = s"
  by (simp add: strip.simps [of ws s])

lemma strip_white_space_concat:
  "set us \<subseteq> set white_space \<Longrightarrow> strip white_space (concat us @ r) = strip white_space r"
proof (induction us)
  case Nil
  then show ?case by simp
next
  case (Cons u us)
  then have "after_first white_space (u @ (concat us @ r)) = Some (concat us @ r)"
    by (intro after_first_white_space) simp
  then have "strip white_space (u @ (concat us @ r)) = strip white_space (concat us @ r)"
    by (rule strip_Some)
  with Cons show ?case by simp
qed

lemma strip_rev_white_space_concat:
  "set us \<subseteq> set white_space
    \<Longrightarrow> strip (map rev white_space) (concat (map rev us) @ r) = strip (map rev white_space) r"
proof (induction us)
  case Nil
  then show ?case by simp
next
  case (Cons u us)
  then have "after_first (map rev white_space) (rev u @ (concat (map rev us) @ r))
      = Some (concat (map rev us) @ r)"
    by (intro after_first_rev_white_space) simp
  then have "strip (map rev white_space) (rev u @ (concat (map rev us) @ r))
      = strip (map rev white_space) (concat (map rev us) @ r)"
    by (rule strip_Some)
  with Cons show ?case by simp
qed

lemma strip_decomposition:
  "\<exists>us. set us \<subseteq> set ws \<and> s = concat us @ strip ws s"
proof (induction ws s rule: strip.induct)
  case (1 ws s)
  show ?case
  proof (cases "after_first ws s")
    case None
    then have "s = concat [] @ strip ws s" by (simp add: strip_None)
    then show ?thesis by (intro exI [of _ "[]"]) simp
  next
    case (Some rest)
    from 1 [OF Some] obtain us where us: "set us \<subseteq> set ws" "rest = concat us @ strip ws rest"
      by blast
    from Some obtain w where w: "w \<in> set ws" "s = w @ rest"
      by (rule after_first_SomeD)
    have "strip ws s = strip ws rest"
      using Some by (rule strip_Some)
    with us(2) have "rest = concat us @ strip ws s"
      by simp
    with w(2) have "s = concat (w # us) @ strip ws s"
      by simp
    moreover have "set (w # us) \<subseteq> set ws"
      using us(1) w(1) by simp
    ultimately show ?thesis by blast
  qed
qed

lemma after_first_strip: "after_first ws (strip ws s) = None"
proof (induction ws s rule: strip.induct)
  case (1 ws s)
  show ?case
  proof (cases "after_first ws s")
    case None
    then show ?thesis by (simp add: strip_None)
  next
    case (Some rest)
    with 1 [OF Some] show ?thesis by (simp add: strip_Some)
  qed
qed

lemma white_space_nonempty: "w \<in> set white_space \<Longrightarrow> w \<noteq> []"
  by (auto simp: white_space_def)

lemma trim_white_space_only:
  assumes "set us \<subseteq> set white_space"
  shows "trim (concat us) = []"
proof -
  have "strip white_space (concat us @ []) = strip white_space []"
    using assms by (rule strip_white_space_concat)
  then have "trimStart (concat us) = []"
    by (simp add: trimStart_def strip_Nil)
  then show ?thesis
    by (simp add: trim_def trimEnd_def strip_Nil)
qed

lemma trim_empty_white_space_only:
  assumes "trim s = []"
  shows "\<exists>us. set us \<subseteq> set white_space \<and> s = concat us"
proof -
  obtain us where us: "set us \<subseteq> set white_space" "s = concat us @ trimStart s"
    unfolding trimStart_def using strip_decomposition [of white_space s] by blast
  have "trimStart s = []"
  proof (rule ccontr)
    assume ne: "trimStart s \<noteq> []"
    from assms have "strip (map rev white_space) (rev (trimStart s)) = []"
      by (simp add: trim_def trimEnd_def)
    with strip_decomposition [of "map rev white_space" "rev (trimStart s)"]
    obtain vs where vs: "set vs \<subseteq> set (map rev white_space)" "rev (trimStart s) = concat vs"
      by auto
    from vs(2) have t: "trimStart s = concat (map rev (rev vs))"
      by (metis rev_concat rev_rev_ident)
    have sub: "set (map rev (rev vs)) \<subseteq> set white_space"
      using vs(1) by auto
    from ne t obtain w ws' where c: "map rev (rev vs) = w # ws'"
      by (cases "map rev (rev vs)") auto
    with sub have "w \<in> set white_space" by auto
    then have "after_first white_space (w @ concat ws') = Some (concat ws')"
      by (rule after_first_white_space)
    moreover have "trimStart s = w @ concat ws'"
      using t c by simp
    moreover have "after_first white_space (trimStart s) = None"
      unfolding trimStart_def by (rule after_first_strip)
    ultimately show False by simp
  qed
  with us show ?thesis by auto
qed

lemma trim_eq_Nil_iff:
  "trim s = [] \<longleftrightarrow> (\<exists>us. set us \<subseteq> set white_space \<and> s = concat us)"
  using trim_white_space_only trim_empty_white_space_only by blast

text \<open>
  What \<open>trim\<close> returns: the input without a run of white space at its front and a run
  of white space at its end, and with no white space left at either end.
\<close>

lemma trim_decomposition:
  "\<exists>us vs. set us \<subseteq> set white_space \<and> set vs \<subseteq> set white_space
     \<and> s = concat us @ trim s @ concat vs"
proof -
  obtain us where us: "set us \<subseteq> set white_space" "s = concat us @ trimStart s"
    unfolding trimStart_def using strip_decomposition [of white_space s] by blast
  obtain ws where ws: "set ws \<subseteq> set (map rev white_space)"
    "rev (trimStart s) = concat ws @ strip (map rev white_space) (rev (trimStart s))"
    using strip_decomposition [of "map rev white_space" "rev (trimStart s)"] by blast
  from ws(2) have "rev (rev (trimStart s))
      = rev (concat ws @ strip (map rev white_space) (rev (trimStart s)))"
    by (rule arg_cong)
  then have t: "trimStart s = trim s @ concat (map rev (rev ws))"
    by (simp add: trim_def trimEnd_def rev_concat)
  have "set (map rev (rev ws)) \<subseteq> set white_space"
    using ws(1) by auto
  moreover have "s = concat us @ trim s @ concat (map rev (rev ws))"
    using us(2) t by simp
  ultimately show ?thesis
    using us(1) by blast
qed

lemma trim_no_white_space_at_end: "after_first (map rev white_space) (rev (trim s)) = None"
  by (simp add: trim_def trimEnd_def after_first_strip)

lemma trim_no_white_space_at_front: "after_first white_space (trim s) = None"
proof -
  obtain vs where t: "trimStart s = trim s @ vs"
  proof -
    have "rev (rev (trimStart s)) = trimStart s" by simp
    obtain ws where "rev (trimStart s)
        = concat ws @ strip (map rev white_space) (rev (trimStart s))"
      using strip_decomposition [of "map rev white_space" "rev (trimStart s)"] by blast
    then have "rev (rev (trimStart s))
        = rev (concat ws @ strip (map rev white_space) (rev (trimStart s)))"
      by (rule arg_cong)
    then have "trimStart s = trim s @ rev (concat ws)"
      by (simp add: trim_def trimEnd_def)
    then show thesis by (rule that)
  qed
  have none: "after_first white_space (trimStart s) = None"
    unfolding trimStart_def by (rule after_first_strip)
  show ?thesis
    unfolding after_first_None_iff
  proof (intro ballI impI notI)
    fix w assume w: "w \<in> set white_space" "w \<noteq> []" "take (length w) (trim s) = w"
    from w(3) have "length w \<le> length (trim s)"
      by (metis length_take min.cobounded1)
    then have "take (length w) (trimStart s) = take (length w) (trim s)"
      by (simp add: t)
    with w(3) have "take (length w) (trimStart s) = w" by simp
    with none w(1,2) show False
      by (simp add: after_first_None_iff)
  qed
qed

lemma trim_hi: "trim ''hi'' = ''hi''"
  by code_simp

lemma trim_nbsp_hi_em_space:
  "trim [CHR 0xC2, CHR 0xA0, CHR ''h'', CHR ''i'', CHR 0xE2, CHR 0x80, CHR 0x83] = ''hi''"
  by code_simp

section \<open>Client-side expiry: properties\<close>

lemma diffMinutes_less_2: "diffMinutes now msg < 2 \<longleftrightarrow> now - created_at msg < 120000"
proof -
  have "diffMinutes now msg < 2 \<longleftrightarrow> real_of_int (now - created_at msg) < real_of_int 120000"
    by (simp add: diffMinutes_def divide_less_eq)
  also have "\<dots> \<longleftrightarrow> now - created_at msg < 120000"
    by (rule of_int_less_iff)
  finally show ?thesis .
qed

text \<open>
  Claim C1. For every list and every current time, \<open>removeExpiredMessages\<close> keeps a
  message iff the current time minus its \<open>created_at\<close> is strictly less than two minutes
  (120000 ms), the survivors keep their order (the result is the filtered list, a
  subsequence of the input), a message 119 seconds old is kept and one 121 seconds old
  is removed.
\<close>

theorem removeExpiredMessages_keeps_iff_younger_than_2min:
  "removeExpiredMessages now current
     = filter (\<lambda>m. now - created_at m < 2 * 60 * 1000) current
   \<and> (m \<in> set (removeExpiredMessages now current)
        \<longleftrightarrow> m \<in> set current \<and> now - created_at m < 2 * 60 * 1000)
   \<and> subseq (removeExpiredMessages now current) current
   \<and> removeExpiredMessages (t + 119 * 1000) [a\<lparr>created_at := t\<rparr>] = [a\<lparr>created_at := t\<rparr>]
   \<and> removeExpiredMessages (t + 121 * 1000) [a\<lparr>created_at := t\<rparr>] = []"
proof -
  have eq: "removeExpiredMessages n xs = filter (\<lambda>m. n - created_at m < 2 * 60 * 1000) xs"
    for n xs
    by (simp add: removeExpiredMessages_def diffMinutes_less_2)
  show ?thesis
    by (simp add: eq)
qed

theorem removeExpiredMessages_witness:
  "removeExpiredMessages 200000
     [\<lparr>msg_id = ''a'', content = ''old'', created_at = 80000, reply_to = None\<rparr>,
      \<lparr>msg_id = ''b'', content = ''new'', created_at = 80001, reply_to = None\<rparr>,
      \<lparr>msg_id = ''c'', content = ''older'', created_at = 0, reply_to = Some ''a''\<rparr>,
      \<lparr>msg_id = ''d'', content = ''newer'', created_at = 199999, reply_to = None\<rparr>]
   = [\<lparr>msg_id = ''b'', content = ''new'', created_at = 80001, reply_to = None\<rparr>,
      \<lparr>msg_id = ''d'', content = ''newer'', created_at = 199999, reply_to = None\<rparr>]"
  using removeExpiredMessages_keeps_iff_younger_than_2min
    [of 200000
      "[\<lparr>msg_id = ''a'', content = ''old'', created_at = 80000, reply_to = None\<rparr>,
        \<lparr>msg_id = ''b'', content = ''new'', created_at = 80001, reply_to = None\<rparr>,
        \<lparr>msg_id = ''c'', content = ''older'', created_at = 0, reply_to = Some ''a''\<rparr>,
        \<lparr>msg_id = ''d'', content = ''newer'', created_at = 199999, reply_to = None\<rparr>]"]
  by simp

section \<open>Realtime insert: properties\<close>

lemma on_insert_messages: "messages (on_insert payload_new s) = insertHandler payload_new (messages s)"
  by (simp add: on_insert_def)

lemma on_delete_messages:
  "messages (on_delete payload_old_id s) = deleteHandler payload_old_id (messages s)"
  by (simp add: on_delete_def)

lemma removeExpiredMessages_tick_messages:
  "messages (removeExpiredMessages_tick now s) = removeExpiredMessages now (messages s)"
  by (simp add: removeExpiredMessages_tick_def)

lemma insertHandler_cases:
  "insertHandler p current = (if msg_id p \<in> msg_id ` set current then current else p # current)"
  by (auto simp: insertHandler_def list_ex_iff intro: rev_image_eqI)

text \<open>
  Claim C10. The insert-event handler preserves the distinctness of message ids: from a
  list with pairwise distinct ids it gives one with pairwise distinct ids, because it
  prepends the incoming message only when no message of the list has its id and returns
  the list unchanged otherwise.
\<close>

theorem insertHandler_preserves_distinct_ids:
  assumes "distinct (map msg_id current)"
  shows "distinct (map msg_id (insertHandler payload_new current))
    \<and> insertHandler payload_new current
        = (if msg_id payload_new \<in> msg_id ` set current then current
           else payload_new # current)"
  using assms by (simp add: insertHandler_cases)

theorem insertHandler_preserves_distinct_ids_witness:
  "distinct (map msg_id
     (insertHandler \<lparr>msg_id = ''b'', content = ''again'', created_at = 7, reply_to = None\<rparr>
        [\<lparr>msg_id = ''a'', content = ''x'', created_at = 1, reply_to = None\<rparr>,
         \<lparr>msg_id = ''b'', content = ''y'', created_at = 2, reply_to = Some ''a''\<rparr>]))
   \<and> distinct (map msg_id
     (insertHandler \<lparr>msg_id = ''c'', content = ''new'', created_at = 7, reply_to = None\<rparr>
        [\<lparr>msg_id = ''a'', content = ''x'', created_at = 1, reply_to = None\<rparr>,
         \<lparr>msg_id = ''b'', content = ''y'', created_at = 2, reply_to = Some ''a''\<rparr>]))"
proof -
  let ?cur = "[\<lparr>msg_id = ''a'', content = ''x'', created_at = 1, reply_to = None\<rparr>,
         \<lparr>msg_id = ''b'', content = ''y'', created_at = 2, reply_to = Some ''a''\<rparr>]"
  have d: "distinct (map msg_id ?cur)" by simp
  show ?thesis
    using insertHandler_preserves_distinct_ids [OF d, of "\<lparr>msg_id = ''b'', content = ''again'', created_at = 7, reply_to = None\<rparr>"]
      insertHandler_preserves_distinct_ids [OF d, of "\<lparr>msg_id = ''c'', content = ''new'', created_at = 7, reply_to = None\<rparr>"]
    by blast
qed

section \<open>Sending a message: properties\<close>

lemma handleSendMessage_start_sent:
  assumes "handleSendMessage_start t_id t_created s = (s1, Some (req, p))"
  shows "trim (newMessage s) \<noteq> []" and "\<not> isLoading s"
    and "optimisticMessage p =
          \<lparr>msg_id = temp_id t_id, content = trim (newMessage s),
           created_at = t_created, reply_to = reply_id_or_null (replyingTo s)\<rparr>"
    and "messageContent p = trim (newMessage s)"
    and "currentReplyTo p = replyingTo s"
    and "req = \<lparr>ins_content = trim (newMessage s), ins_reply_to = reply_id_or_null (replyingTo s)\<rparr>"
    and "s1 = s\<lparr>isLoading := True, newMessage := [], replyingTo := None,
               messages := optimisticMessage p # messages s\<rparr>"
  using assms
  by (auto simp: handleSendMessage_start_def Let_def split: if_splits)

lemma temp_id_1000: "temp_id 1000 = ''temp-1000''"
  by code_simp

text \<open>
  Claim C9. If the trimmed input is empty, which is the case exactly when the input is
  empty or made of white space only, or if a send is in flight, \<open>handleSendMessage\<close>
  changes nothing: the state (message list, input text, reply target, loading flag) is
  returned as it was, and no insert is issued.
\<close>

theorem handleSendMessage_guard_noop:
  "(trim (newMessage s) = []
      \<longleftrightarrow> (\<exists>us. set us \<subseteq> set white_space \<and> newMessage s = concat us))
   \<and> ((\<exists>us. set us \<subseteq> set white_space \<and> newMessage s = concat us) \<or> isLoading s
        \<longrightarrow> handleSendMessage_start t_id t_created s = (s, None))
   \<and> (trim (newMessage s) = [] \<or> isLoading s
        \<longrightarrow> handleSendMessage_start t_id t_created s = (s, None))"
proof (intro conjI impI)
  show iff: "trim (newMessage s) = []
      \<longleftrightarrow> (\<exists>us. set us \<subseteq> set white_space \<and> newMessage s = concat us)"
    by (rule trim_eq_Nil_iff)
  show guard: "handleSendMessage_start t_id t_created s = (s, None)"
    if "trim (newMessage s) = [] \<or> isLoading s"
    using that by (simp add: handleSendMessage_start_def)
  show "handleSendMessage_start t_id t_created s = (s, None)"
    if "(\<exists>us. set us \<subseteq> set white_space \<and> newMessage s = concat us) \<or> isLoading s"
  proof (rule guard)
    from that show "trim (newMessage s) = [] \<or> isLoading s"
      unfolding iff .
  qed
qed

theorem handleSendMessage_guard_noop_witness:
  "handleSendMessage_start 1000 1001
     (initial_state
        \<lparr>newMessage := [CHR 0xC2, CHR 0xA0, CHR 0xE3, CHR 0x80, CHR 0x80, CHR 0x20, CHR 0x0A]\<rparr>)
     = (initial_state
          \<lparr>newMessage := [CHR 0xC2, CHR 0xA0, CHR 0xE3, CHR 0x80, CHR 0x80, CHR 0x20, CHR 0x0A]\<rparr>,
        None)
   \<and> handleSendMessage_start 1000 1001 (initial_state\<lparr>newMessage := [], replyingTo := None\<rparr>)
     = (initial_state\<lparr>newMessage := [], replyingTo := None\<rparr>, None)
   \<and> handleSendMessage_start 1000 1001 (initial_state\<lparr>newMessage := ''hi'', isLoading := True\<rparr>)
     = (initial_state\<lparr>newMessage := ''hi'', isLoading := True\<rparr>, None)"
proof -
  let ?w = "initial_state
        \<lparr>newMessage := [CHR 0xC2, CHR 0xA0, CHR 0xE3, CHR 0x80, CHR 0x80, CHR 0x20, CHR 0x0A]\<rparr>"
  let ?e = "initial_state\<lparr>newMessage := [], replyingTo := None\<rparr>"
  let ?l = "initial_state\<lparr>newMessage := ''hi'', isLoading := True\<rparr>"
  have "set [[CHR 0xC2, CHR 0xA0], [CHR 0xE3, CHR 0x80, CHR 0x80], [CHR 0x20], [CHR 0x0A]]
          \<subseteq> set white_space
        \<and> newMessage ?w
          = concat [[CHR 0xC2, CHR 0xA0], [CHR 0xE3, CHR 0x80, CHR 0x80], [CHR 0x20], [CHR 0x0A]]"
    by (simp add: white_space_def)
  then have "\<exists>us. set us \<subseteq> set white_space \<and> newMessage ?w = concat us"
    by (rule exI)
  then have a: "(\<exists>us. set us \<subseteq> set white_space \<and> newMessage ?w = concat us) \<or> isLoading ?w"
    by (rule disjI1)
  have "set [] \<subseteq> set white_space \<and> newMessage ?e = concat []"
    by simp
  then have "\<exists>us. set us \<subseteq> set white_space \<and> newMessage ?e = concat us"
    by (rule exI)
  then have b: "(\<exists>us. set us \<subseteq> set white_space \<and> newMessage ?e = concat us) \<or> isLoading ?e"
    by (rule disjI1)
  have "isLoading ?l"
    by simp
  then have c: "trim (newMessage ?l) = [] \<or> isLoading ?l"
    by (rule disjI2)
  have 1: "handleSendMessage_start 1000 1001 ?w = (?w, None)"
    by (rule handleSendMessage_guard_noop [of ?w 1000 1001,
          THEN conjunct2, THEN conjunct1, THEN mp, OF a])
  have 2: "handleSendMessage_start 1000 1001 ?e = (?e, None)"
    by (rule handleSendMessage_guard_noop [of ?e 1000 1001,
          THEN conjunct2, THEN conjunct1, THEN mp, OF b])
  have 3: "handleSendMessage_start 1000 1001 ?l = (?l, None)"
    by (rule handleSendMessage_guard_noop [of ?l 1000 1001,
          THEN conjunct2, THEN conjunct2, THEN mp, OF c])
  from 1 2 3 show ?thesis
    by (intro conjI)
qed

text \<open>
  Claim C3. When the insert fails, the continuation of \<open>handleSendMessage\<close> removes from
  the list of that moment exactly the messages carrying the temporary id (the optimistic
  message) and keeps every other message in place, sets the input text to the trimmed
  content that was sent (the input without the white space at its two ends) and the
  reply target to its value before the send. When no other
  message carries the temporary id and nothing happened in between, the state is the one
  before the send, with the input trimmed.
\<close>

theorem handleSendMessage_rollback_on_error:
  assumes start: "handleSendMessage_start t_id t_created s = (s1, Some (req, p))"
    and err: "error r = Some e"
  shows "messages s1 = optimisticMessage p # messages s
    \<and> msg_id (optimisticMessage p) = temp_id t_id
    \<and> messages (handleSendMessage_settle p r s2)
          = filter (\<lambda>m. msg_id m \<noteq> temp_id t_id) (messages s2)
    \<and> newMessage (handleSendMessage_settle p r s2) = trim (newMessage s)
    \<and> replyingTo (handleSendMessage_settle p r s2) = replyingTo s
    \<and> (\<exists>us vs. set us \<subseteq> set white_space \<and> set vs \<subseteq> set white_space
          \<and> newMessage s = concat us @ newMessage (handleSendMessage_settle p r s2) @ concat vs
          \<and> after_first white_space (newMessage (handleSendMessage_settle p r s2)) = None
          \<and> after_first (map rev white_space)
                (rev (newMessage (handleSendMessage_settle p r s2))) = None)
    \<and> ((\<forall>m\<in>set (messages s). msg_id m \<noteq> temp_id t_id)
         \<longrightarrow> handleSendMessage_settle p r s1 = s\<lparr>newMessage := trim (newMessage s)\<rparr>)"
proof (intro conjI impI)
  note f = handleSendMessage_start_sent [OF start]
  have settle: "handleSendMessage_settle p r x
      = x\<lparr>messages := filter (\<lambda>m. msg_id m \<noteq> temp_id t_id) (messages x),
          newMessage := trim (newMessage s), replyingTo := replyingTo s, isLoading := False\<rparr>" for x
    by (simp add: handleSendMessage_settle_def err f(3,4,5))
  show "messages s1 = optimisticMessage p # messages s"
    by (simp add: f(7))
  show "msg_id (optimisticMessage p) = temp_id t_id"
    by (simp add: f(3))
  show "messages (handleSendMessage_settle p r s2)
          = filter (\<lambda>m. msg_id m \<noteq> temp_id t_id) (messages s2)"
    by (simp add: settle)
  show "newMessage (handleSendMessage_settle p r s2) = trim (newMessage s)"
    by (simp add: settle)
  show "replyingTo (handleSendMessage_settle p r s2) = replyingTo s"
    by (simp add: settle)
  have restored: "newMessage (handleSendMessage_settle p r s2) = trim (newMessage s)"
    by (simp add: settle)
  from trim_decomposition [of "newMessage s"]
  obtain us vs where "set us \<subseteq> set white_space" "set vs \<subseteq> set white_space"
    "newMessage s = concat us @ trim (newMessage s) @ concat vs"
    by blast
  then show "\<exists>us vs. set us \<subseteq> set white_space \<and> set vs \<subseteq> set white_space
          \<and> newMessage s = concat us @ newMessage (handleSendMessage_settle p r s2) @ concat vs
          \<and> after_first white_space (newMessage (handleSendMessage_settle p r s2)) = None
          \<and> after_first (map rev white_space)
                (rev (newMessage (handleSendMessage_settle p r s2))) = None"
    unfolding restored
    using trim_no_white_space_at_front [of "newMessage s"]
      trim_no_white_space_at_end [of "newMessage s"]
    by (intro exI conjI)
  show "handleSendMessage_settle p r s1 = s\<lparr>newMessage := trim (newMessage s)\<rparr>"
    if fresh: "\<forall>m\<in>set (messages s). msg_id m \<noteq> temp_id t_id"
  proof -
    have "filter (\<lambda>m. msg_id m \<noteq> temp_id t_id) (messages s) = messages s"
      using fresh by simp
    moreover have "\<not> isLoading s" by (rule f(2))
    ultimately show ?thesis
      by (simp add: settle f(7) f(3))
  qed
qed

theorem handleSendMessage_rollback_on_error_witness:
  "handleSendMessage_start 1000 1001
     \<lparr>messages = [\<lparr>msg_id = ''a'', content = ''x'', created_at = 1, reply_to = None\<rparr>],
      newMessage = [CHR 0xC2, CHR 0xA0, CHR ''h'', CHR ''i'', CHR 0xE2, CHR 0x80, CHR 0x83],
      isLoading = False, theme = ''dark'',
      replyingTo = Some \<lparr>msg_id = ''a'', content = ''x'', created_at = 1, reply_to = None\<rparr>,
      showTooltip = False\<rparr>
   = (\<lparr>messages =
         [\<lparr>msg_id = ''temp-1000'', content = ''hi'', created_at = 1001, reply_to = Some ''a''\<rparr>,
          \<lparr>msg_id = ''a'', content = ''x'', created_at = 1, reply_to = None\<rparr>],
       newMessage = [], isLoading = True, theme = ''dark'', replyingTo = None,
       showTooltip = False\<rparr>,
      Some (\<lparr>ins_content = ''hi'', ins_reply_to = Some ''a''\<rparr>,
            \<lparr>optimisticMessage =
               \<lparr>msg_id = ''temp-1000'', content = ''hi'', created_at = 1001,
                reply_to = Some ''a''\<rparr>,
             messageContent = ''hi'',
             currentReplyTo =
               Some \<lparr>msg_id = ''a'', content = ''x'', created_at = 1, reply_to = None\<rparr>\<rparr>))
   \<and> handleSendMessage_settle
     \<lparr>optimisticMessage =
        \<lparr>msg_id = ''temp-1000'', content = ''hi'', created_at = 1001, reply_to = Some ''a''\<rparr>,
      messageContent = ''hi'',
      currentReplyTo = Some \<lparr>msg_id = ''a'', content = ''x'', created_at = 1, reply_to = None\<rparr>\<rparr>
     \<lparr>data = None, error = Some ''insert failed''\<rparr>
     \<lparr>messages =
        [\<lparr>msg_id = ''temp-1000'', content = ''hi'', created_at = 1001, reply_to = Some ''a''\<rparr>,
         \<lparr>msg_id = ''a'', content = ''x'', created_at = 1, reply_to = None\<rparr>],
      newMessage = [], isLoading = True, theme = ''dark'', replyingTo = None,
      showTooltip = False\<rparr>
   = \<lparr>messages = [\<lparr>msg_id = ''a'', content = ''x'', created_at = 1, reply_to = None\<rparr>],
      newMessage = ''hi'', isLoading = False, theme = ''dark'',
      replyingTo = Some \<lparr>msg_id = ''a'', content = ''x'', created_at = 1, reply_to = None\<rparr>,
      showTooltip = False\<rparr>"
proof -
  let ?a = "\<lparr>msg_id = ''a'', content = ''x'', created_at = 1, reply_to = None\<rparr>"
  let ?s = "\<lparr>messages = [?a],
             newMessage = [CHR 0xC2, CHR 0xA0, CHR ''h'', CHR ''i'', CHR 0xE2, CHR 0x80, CHR 0x83],
             isLoading = False, theme = ''dark'', replyingTo = Some ?a, showTooltip = False\<rparr>"
  let ?opt = "\<lparr>msg_id = ''temp-1000'', content = ''hi'', created_at = 1001, reply_to = Some ''a''\<rparr>"
  let ?p = "\<lparr>optimisticMessage = ?opt, messageContent = ''hi'', currentReplyTo = Some ?a\<rparr>"
  let ?s1 = "\<lparr>messages = [?opt, ?a], newMessage = [], isLoading = True, theme = ''dark'',
             replyingTo = None, showTooltip = False\<rparr>"
  let ?r = "\<lparr>data = None, error = Some ''insert failed''\<rparr> :: message response"
  have tr: "trim (newMessage ?s) = ''hi''"
    by (simp add: trim_nbsp_hi_em_space)
  have start: "handleSendMessage_start 1000 1001 ?s
      = (?s1, Some (\<lparr>ins_content = ''hi'', ins_reply_to = Some ''a''\<rparr>, ?p))"
    by (simp add: handleSendMessage_start_def Let_def trim_nbsp_hi_em_space
        reply_id_or_null_def temp_id_1000)
  have err: "error ?r = Some ''insert failed''" by simp
  have fresh: "\<forall>m\<in>set (messages ?s). msg_id m \<noteq> temp_id 1000" by (simp add: temp_id_1000)
  have "handleSendMessage_settle ?p ?r ?s1 = ?s\<lparr>newMessage := trim (newMessage ?s)\<rparr>"
    by (rule handleSendMessage_rollback_on_error [OF start err, of ?s1,
          THEN conjunct2, THEN conjunct2, THEN conjunct2, THEN conjunct2, THEN conjunct2,
          THEN conjunct2, THEN mp, OF fresh])
  then have "handleSendMessage_settle ?p ?r ?s1 = ?s\<lparr>newMessage := ''hi''\<rparr>"
    unfolding tr .
  then have "handleSendMessage_settle ?p ?r ?s1
      = \<lparr>messages = [?a], newMessage = ''hi'', isLoading = False, theme = ''dark'',
         replyingTo = Some ?a, showTooltip = False\<rparr>"
    by simp
  with start show ?thesis
    by (rule conjI)
qed

text \<open>
  Claim C2, at a concrete run. The sender types \<open>hi\<close> into an empty room; the send starts
  and shows the optimistic message \<open>temp-1000\<close>. The realtime echo of the stored row
  \<open>u1\<close> is handled before the insert response: no message of the list has the id
  \<open>u1\<close> yet, so the handler prepends the row. The response then replaces the optimistic
  message by the same row, and the list holds the message twice.
\<close>

theorem echo_before_response_leaves_two_copies:
  "handleSendMessage_start 1000 1001 (initial_state\<lparr>newMessage := ''hi''\<rparr>)
     = (initial_state
          \<lparr>isLoading := True,
           messages := [\<lparr>msg_id = ''temp-1000'', content = ''hi'', created_at = 1001, reply_to = None\<rparr>]\<rparr>,
        Some (\<lparr>ins_content = ''hi'', ins_reply_to = None\<rparr>,
              \<lparr>optimisticMessage =
                 \<lparr>msg_id = ''temp-1000'', content = ''hi'', created_at = 1001, reply_to = None\<rparr>,
               messageContent = ''hi'', currentReplyTo = None\<rparr>))
   \<and> messages
        (handleSendMessage_settle
          \<lparr>optimisticMessage =
             \<lparr>msg_id = ''temp-1000'', content = ''hi'', created_at = 1001, reply_to = None\<rparr>,
           messageContent = ''hi'', currentReplyTo = None\<rparr>
          \<lparr>data = Some \<lparr>msg_id = ''u1'', content = ''hi'', created_at = 1005, reply_to = None\<rparr>,
           error = None\<rparr>
          (on_insert \<lparr>msg_id = ''u1'', content = ''hi'', created_at = 1005, reply_to = None\<rparr>
            (initial_state
              \<lparr>isLoading := True,
               messages := [\<lparr>msg_id = ''temp-1000'', content = ''hi'', created_at = 1001, reply_to = None\<rparr>]\<rparr>)))
      = [\<lparr>msg_id = ''u1'', content = ''hi'', created_at = 1005, reply_to = None\<rparr>,
         \<lparr>msg_id = ''u1'', content = ''hi'', created_at = 1005, reply_to = None\<rparr>]"
  by (simp add: handleSendMessage_start_def handleSendMessage_settle_def on_insert_def
      insertHandler_def initial_state_def Let_def trim_hi
      reply_id_or_null_def temp_id_1000)

text \<open>
  The two orders in general, for a fresh temporary id and a fresh row id: the response
  first leaves one copy, the echo first leaves two.
\<close>

lemma response_before_echo_one_copy:
  assumes start: "handleSendMessage_start t_id t_created s = (s1, Some (req, p))"
    and ok: "data r = Some d" "error r = None"
    and fresh: "\<forall>m\<in>set (messages s). msg_id m \<noteq> temp_id t_id"
      "\<forall>m\<in>set (messages s). msg_id m \<noteq> msg_id d"
  shows "messages (on_insert d (handleSendMessage_settle p r s1)) = d # messages s"
proof -
  note f = handleSendMessage_start_sent [OF start]
  have m: "map (\<lambda>msg. if msg_id msg = temp_id t_id then d else msg) (messages s)
      = messages s"
    using fresh(1) by (intro map_idI) simp
  have "messages (handleSendMessage_settle p r s1) = d # messages s"
    by (simp add: handleSendMessage_settle_def ok f(7) f(3) m)
  then show ?thesis
    by (simp add: on_insert_def insertHandler_def)
qed

lemma echo_before_response_two_copies:
  assumes start: "handleSendMessage_start t_id t_created s = (s1, Some (req, p))"
    and ok: "data r = Some d" "error r = None"
    and fresh: "\<forall>m\<in>set (messages s). msg_id m \<noteq> temp_id t_id"
      "\<forall>m\<in>set (messages s). msg_id m \<noteq> msg_id d" "msg_id d \<noteq> temp_id t_id"
  shows "messages (handleSendMessage_settle p r (on_insert d s1)) = d # d # messages s"
proof -
  note f = handleSendMessage_start_sent [OF start]
  have m: "map (\<lambda>msg. if msg_id msg = temp_id t_id then d else msg) (messages s)
      = messages s"
    using fresh(1) by (intro map_idI) simp
  have "\<not> list_ex (\<lambda>msg. msg_id msg = msg_id d) (messages s1)"
    using fresh(2,3) by (auto simp: f(7) f(3) list_ex_iff)
  then have "messages (on_insert d s1) = d # optimisticMessage p # messages s"
    by (simp add: on_insert_def insertHandler_def f(7))
  then show ?thesis
    using fresh(3) by (simp add: handleSendMessage_settle_def ok f(3) m)
qed

section \<open>Theme: properties\<close>

lemma indexOf_themes:
  "indexOf themes ''dark'' = 0" "indexOf themes ''light'' = 1"
  "indexOf themes ''golden'' = 2" "indexOf themes ''sonali'' = 3"
  by (simp_all add: themes_def)

lemma length_themes: "int (length themes) = 4"
  by (simp add: themes_def)

lemma nth_themes:
  "themes ! 0 = ''dark''" "themes ! Suc 0 = ''light''" "themes ! 2 = ''golden''"
  "themes ! 3 = ''sonali''"
  by (simp_all add: themes_def numeral_3_eq_3 numeral_2_eq_2)

lemma toggleTheme_theme:
  "theme (fst (toggleTheme (s, b)))
     = themes ! nat ((indexOf themes (theme s) + 1) mod int (length themes))"
  by (simp add: toggleTheme_def Let_def)

lemma toggleTheme_storage:
  "localStorage (snd (toggleTheme (s, b))) ''theme'' = Some (theme (fst (toggleTheme (s, b))))"
  by (simp add: toggleTheme_def Let_def)

lemma toggleTheme_next:
  "theme s = ''dark'' \<Longrightarrow> theme (fst (toggleTheme (s, b))) = ''light''"
  "theme s = ''light'' \<Longrightarrow> theme (fst (toggleTheme (s, b))) = ''golden''"
  "theme s = ''golden'' \<Longrightarrow> theme (fst (toggleTheme (s, b))) = ''sonali''"
  "theme s = ''sonali'' \<Longrightarrow> theme (fst (toggleTheme (s, b))) = ''dark''"
  by (simp_all only: toggleTheme_theme indexOf_themes length_themes) (simp_all add: nth_themes)

lemma themes_nonempty: "x \<in> set themes \<Longrightarrow> x \<noteq> []"
  by (auto simp: themes_def)

lemma next_theme_nonempty:
  "themes ! nat ((indexOf themes t + 1) mod int (length themes)) \<noteq> []"
proof -
  have len: "length themes = 4"
    by (simp add: themes_def)
  have "nat ((indexOf themes t + 1) mod 4) < 4"
    by simp
  then have "nat ((indexOf themes t + 1) mod int (length themes)) < length themes"
    by (simp only: len of_nat_numeral)
  then have "themes ! nat ((indexOf themes t + 1) mod int (length themes)) \<in> set themes"
    by (rule nth_mem)
  then show ?thesis
    by (rule themes_nonempty)
qed

lemma toggleTheme_4:
  assumes "theme s \<in> set themes"
  shows "theme (fst ((toggleTheme ^^ 4) (s, b))) = theme s"
proof -
  obtain s1 b1 where 1: "toggleTheme (s, b) = (s1, b1)" by (cases "toggleTheme (s, b)")
  obtain s2 b2 where 2: "toggleTheme (s1, b1) = (s2, b2)" by (cases "toggleTheme (s1, b1)")
  obtain s3 b3 where 3: "toggleTheme (s2, b2) = (s3, b3)" by (cases "toggleTheme (s2, b2)")
  obtain s4 b4 where 4: "toggleTheme (s3, b3) = (s4, b4)" by (cases "toggleTheme (s3, b3)")
  have "(toggleTheme ^^ 4) (s, b) = toggleTheme (toggleTheme (toggleTheme (toggleTheme (s, b))))"
    by (simp add: numeral_eq_Suc)
  then have run: "(toggleTheme ^^ 4) (s, b) = (s4, b4)"
    by (simp only: 1 2 3 4)
  have t1: "theme s1 = theme (fst (toggleTheme (s, b)))" by (simp only: 1 fst_conv)
  have t2: "theme s2 = theme (fst (toggleTheme (s1, b1)))" by (simp only: 2 fst_conv)
  have t3: "theme s3 = theme (fst (toggleTheme (s2, b2)))" by (simp only: 3 fst_conv)
  have t4: "theme s4 = theme (fst (toggleTheme (s3, b3)))" by (simp only: 4 fst_conv)
  from assms consider "theme s = ''dark''" | "theme s = ''light''" | "theme s = ''golden''"
    | "theme s = ''sonali''"
    by (auto simp: themes_def)
  then have "theme s4 = theme s"
  proof cases
    case 1
    then show ?thesis using t1 t2 t3 t4 by (simp only: toggleTheme_next)
  next
    case 2
    then show ?thesis using t1 t2 t3 t4 by (simp only: toggleTheme_next)
  next
    case 3
    then show ?thesis using t1 t2 t3 t4 by (simp only: toggleTheme_next)
  next
    case 4
    then show ?thesis using t1 t2 t3 t4 by (simp only: toggleTheme_next)
  qed
  then show ?thesis by (simp only: run fst_conv)
qed

lemma load_after_toggle:
  "theme (fst (load (snd (toggleTheme (s, b))))) = theme (fst (toggleTheme (s, b)))"
proof -
  obtain s1 b1 where 1: "toggleTheme (s, b) = (s1, b1)" by (cases "toggleTheme (s, b)")
  have "theme (fst (toggleTheme (s, b))) \<noteq> []"
    unfolding toggleTheme_theme by (rule next_theme_nonempty)
  then have ne: "theme s1 \<noteq> []" by (simp add: 1)
  have st: "localStorage b1 ''theme'' = Some (theme s1)"
    using toggleTheme_storage [of s b] by (simp add: 1)
  show ?thesis
    using ne by (simp add: 1 load_def restore_theme_def st)
qed

text \<open>
  Claim C8. \<open>toggleTheme\<close> goes from dark to light, from light to golden, from golden to
  sonali and from sonali back to dark; from each of the four themes, four toggles return
  to the theme they started from; every toggle writes the theme it chose to
  \<open>localStorage\<close>, and a load after it restores that theme.
\<close>

theorem toggleTheme_cycles_and_persists:
  "theme (fst (toggleTheme (s\<lparr>theme := ''dark''\<rparr>, b))) = ''light''
   \<and> theme (fst (toggleTheme (s\<lparr>theme := ''light''\<rparr>, b))) = ''golden''
   \<and> theme (fst (toggleTheme (s\<lparr>theme := ''golden''\<rparr>, b))) = ''sonali''
   \<and> theme (fst (toggleTheme (s\<lparr>theme := ''sonali''\<rparr>, b))) = ''dark''
   \<and> (t \<in> set themes \<longrightarrow> theme (fst ((toggleTheme ^^ 4) (s\<lparr>theme := t\<rparr>, b))) = t)
   \<and> localStorage (snd (toggleTheme (s, b))) ''theme'' = Some (theme (fst (toggleTheme (s, b))))
   \<and> theme (fst (load (snd (toggleTheme (s, b))))) = theme (fst (toggleTheme (s, b)))"
proof (intro conjI impI)
  show "theme (fst (toggleTheme (s\<lparr>theme := ''dark''\<rparr>, b))) = ''light''"
    by (rule toggleTheme_next) simp
  show "theme (fst (toggleTheme (s\<lparr>theme := ''light''\<rparr>, b))) = ''golden''"
    by (rule toggleTheme_next) simp
  show "theme (fst (toggleTheme (s\<lparr>theme := ''golden''\<rparr>, b))) = ''sonali''"
    by (rule toggleTheme_next) simp
  show "theme (fst (toggleTheme (s\<lparr>theme := ''sonali''\<rparr>, b))) = ''dark''"
    by (rule toggleTheme_next) simp
  show "theme (fst ((toggleTheme ^^ 4) (s\<lparr>theme := t\<rparr>, b))) = t" if "t \<in> set themes"
    using toggleTheme_4 [of "s\<lparr>theme := t\<rparr>" b] that by simp
  show "localStorage (snd (toggleTheme (s, b))) ''theme'' = Some (theme (fst (toggleTheme (s, b))))"
    by (rule toggleTheme_storage)
  show "theme (fst (load (snd (toggleTheme (s, b))))) = theme (fst (toggleTheme (s, b)))"
    by (rule load_after_toggle)
qed

theorem toggleTheme_cycles_and_persists_witness:
  "theme (fst ((toggleTheme ^^ 4)
      (initial_state\<lparr>theme := ''golden''\<rparr>, \<lparr>localStorage = Map.empty, data_theme = None\<rparr>)))
     = ''golden''"
proof -
  have mem: "''golden'' \<in> set themes" by (simp add: themes_def)
  show ?thesis
    by (rule toggleTheme_cycles_and_persists [of initial_state
          "\<lparr>localStorage = Map.empty, data_theme = None\<rparr>" "''golden''",
          THEN conjunct2, THEN conjunct2, THEN conjunct2, THEN conjunct2, THEN conjunct1,
          THEN mp, OF mem])
qed

section \<open>Rendering the reply preview: properties\<close>

lemma getRepliedMessage_Some:
  "getRepliedMessage msgs (Some i) = (if i = [] then None else find (\<lambda>x. msg_id x = i) msgs)"
  by (simp add: getRepliedMessage_def)

lemma render_message_cases:
  "render_message msgs m =
     (case getRepliedMessage msgs (reply_to m) of
        Some r \<Rightarrow> [HeaderRow, ReplyPreview (content r), ContentParagraph (content m)]
      | None \<Rightarrow> [HeaderRow, ContentParagraph (content m)])"
  by (simp add: render_message_def Let_def split: option.split)

text \<open>
  The guard \<^verbatim>\<open>if (!replyToId) return null\<close> treats the empty string as it treats
  \<open>null\<close>. In general, the preview is there iff \<open>reply_to\<close> is non-null and non-empty
  and a message of the list has that id.
\<close>

lemma render_message_preview:
  "((\<exists>c. render_message msgs m = [HeaderRow, ReplyPreview c, ContentParagraph (content m)])
      \<longleftrightarrow> (\<exists>i. reply_to m = Some i \<and> i \<noteq> [] \<and> (\<exists>x\<in>set msgs. msg_id x = i)))
   \<and> (\<not> (\<exists>i. reply_to m = Some i \<and> i \<noteq> [] \<and> (\<exists>x\<in>set msgs. msg_id x = i))
        \<longrightarrow> render_message msgs m = [HeaderRow, ContentParagraph (content m)])
   \<and> (reply_to m = Some j \<and> j \<noteq> [] \<and> find (\<lambda>x. msg_id x = j) msgs = Some r
        \<longrightarrow> render_message msgs m
            = [HeaderRow, ReplyPreview (content r), ContentParagraph (content m)])"
proof (cases "reply_to m")
  case None
  then show ?thesis
    by (simp add: render_message_cases getRepliedMessage_def)
next
  case (Some i)
  show ?thesis
  proof (cases "i = []")
    case True
    with Some show ?thesis
      by (simp add: render_message_cases getRepliedMessage_def)
  next
    case False
    show ?thesis
    proof (cases "find (\<lambda>x. msg_id x = i) msgs")
      case None
      then have "\<not> (\<exists>x\<in>set msgs. msg_id x = i)"
        by (simp add: find_None_iff)
      with Some False None show ?thesis
        by (simp add: render_message_cases getRepliedMessage_def)
    next
      case (Some x)
      then have "\<exists>x\<in>set msgs. msg_id x = i"
        by (auto simp: find_Some_iff)
      with \<open>reply_to m = Some i\<close> False Some show ?thesis
        by (simp add: render_message_cases getRepliedMessage_def)
    qed
  qed
qed

lemma temp_id_nonempty: "temp_id t \<noteq> []"
  by (simp add: temp_id_def)

text \<open>
  Claim C7. The ids of the messages of a local list are never empty: they are the UUIDs
  of the store or temporary ids \<open>temp-n\<close>. On such a list, for every message \<open>m\<close>, a
  preview of the replied-to message's content is rendered directly above the content of
  \<open>m\<close> iff \<open>reply_to m\<close> is non-null and some message of the list has the id
  \<open>reply_to m\<close>; if \<open>reply_to m\<close> is null or no such message is present, the card holds
  the header and the content only. The preview shows the content of the first message of
  the list with that id.
\<close>

theorem reply_preview_iff_target_present:
  assumes ids: "\<forall>x\<in>set msgs. msg_id x \<noteq> []"
  shows "((\<exists>c. render_message msgs m = [HeaderRow, ReplyPreview c, ContentParagraph (content m)])
      \<longleftrightarrow> (reply_to m \<noteq> None \<and> (\<exists>x\<in>set msgs. Some (msg_id x) = reply_to m)))
   \<and> (reply_to m = None \<or> \<not> (\<exists>x\<in>set msgs. Some (msg_id x) = reply_to m)
        \<longrightarrow> render_message msgs m = [HeaderRow, ContentParagraph (content m)])
   \<and> (reply_to m = Some j \<and> find (\<lambda>x. msg_id x = j) msgs = Some r
        \<longrightarrow> render_message msgs m
            = [HeaderRow, ReplyPreview (content r), ContentParagraph (content m)])"
proof -
  have cond: "(\<exists>i. reply_to m = Some i \<and> i \<noteq> [] \<and> (\<exists>x\<in>set msgs. msg_id x = i))
      \<longleftrightarrow> (reply_to m \<noteq> None \<and> (\<exists>x\<in>set msgs. Some (msg_id x) = reply_to m))"
    using ids by auto
  have found: "j \<noteq> []" if "find (\<lambda>x. msg_id x = j) msgs = Some r"
  proof -
    from that have "r \<in> set msgs \<and> msg_id r = j"
      by (rule find_SomeD)
    with ids show ?thesis by auto
  qed
  note g = render_message_preview [of msgs m j r]
  show ?thesis
  proof (intro conjI impI)
    show "(\<exists>c. render_message msgs m = [HeaderRow, ReplyPreview c, ContentParagraph (content m)])
      \<longleftrightarrow> (reply_to m \<noteq> None \<and> (\<exists>x\<in>set msgs. Some (msg_id x) = reply_to m))"
      using g [THEN conjunct1] unfolding cond .
    show "render_message msgs m = [HeaderRow, ContentParagraph (content m)]"
      if "reply_to m = None \<or> \<not> (\<exists>x\<in>set msgs. Some (msg_id x) = reply_to m)"
    proof (rule g [THEN conjunct2, THEN conjunct1, THEN mp])
      from that show "\<not> (\<exists>i. reply_to m = Some i \<and> i \<noteq> [] \<and> (\<exists>x\<in>set msgs. msg_id x = i))"
        unfolding cond by auto
    qed
    show "render_message msgs m
            = [HeaderRow, ReplyPreview (content r), ContentParagraph (content m)]"
      if "reply_to m = Some j \<and> find (\<lambda>x. msg_id x = j) msgs = Some r"
    proof (rule g [THEN conjunct2, THEN conjunct2, THEN mp])
      from that found show "reply_to m = Some j \<and> j \<noteq> [] \<and> find (\<lambda>x. msg_id x = j) msgs = Some r"
        by auto
    qed
  qed
qed

theorem reply_preview_iff_target_present_witness:
  "render_message
     [\<lparr>msg_id = ''m'', content = ''body'', created_at = 5, reply_to = Some ''a''\<rparr>,
      \<lparr>msg_id = ''a'', content = ''target'', created_at = 1, reply_to = None\<rparr>]
     \<lparr>msg_id = ''m'', content = ''body'', created_at = 5, reply_to = Some ''a''\<rparr>
   = [HeaderRow, ReplyPreview ''target'', ContentParagraph ''body'']
   \<and> render_message
     [\<lparr>msg_id = ''m'', content = ''body'', created_at = 5, reply_to = Some ''a''\<rparr>]
     \<lparr>msg_id = ''m'', content = ''body'', created_at = 5, reply_to = Some ''a''\<rparr>
   = [HeaderRow, ContentParagraph ''body'']"
proof -
  let ?m = "\<lparr>msg_id = ''m'', content = ''body'', created_at = 5, reply_to = Some ''a''\<rparr>"
  let ?a = "\<lparr>msg_id = ''a'', content = ''target'', created_at = 1, reply_to = None\<rparr>"
  have ids2: "\<forall>x\<in>set [?m, ?a]. msg_id x \<noteq> []" by simp
  have ids1: "\<forall>x\<in>set [?m]. msg_id x \<noteq> []" by simp
  have h: "reply_to ?m = Some ''a'' \<and> find (\<lambda>x. msg_id x = ''a'') [?m, ?a] = Some ?a"
    by simp
  have 1: "render_message [?m, ?a] ?m
      = [HeaderRow, ReplyPreview (content ?a), ContentParagraph (content ?m)]"
    by (rule reply_preview_iff_target_present [OF ids2, of ?m "''a''" ?a,
          THEN conjunct2, THEN conjunct2, THEN mp, OF h])
  have n: "reply_to ?m = None \<or> \<not> (\<exists>x\<in>set [?m]. Some (msg_id x) = reply_to ?m)"
    by simp
  have 2: "render_message [?m] ?m = [HeaderRow, ContentParagraph (content ?m)]"
    by (rule reply_preview_iff_target_present [OF ids1, of ?m,
          THEN conjunct2, THEN conjunct1, THEN mp, OF n])
  from 1 2 show ?thesis by simp
qed

section \<open>The store: properties\<close>

lemma on_delete_set_null_Nil: "on_delete_set_null [] r = r"
  by (simp add: on_delete_set_null_def split: option.split)

lemma delete_where_nothing:
  assumes "\<forall>r\<in>set tbl. \<not> P r"
  shows "delete_where P tbl = tbl"
proof -
  from assms have "filter P tbl = []" and "filter (\<lambda>r. \<not> P r) tbl = tbl"
    by (simp_all add: filter_empty_conv)
  then show ?thesis
    by (simp add: delete_where_def on_delete_set_null_Nil [abs_def])
qed

lemma on_delete_set_null_keeps:
  "row_id (on_delete_set_null ds r) = row_id r"
  "row_content (on_delete_set_null ds r) = row_content r"
  "row_created_at (on_delete_set_null ds r) = row_created_at r"
  by (simp_all add: on_delete_set_null_def split: option.split)

lemma older_than_2_minutes_on_delete_set_null:
  "older_than_2_minutes now (on_delete_set_null ds r) = older_than_2_minutes now r"
  by (simp add: older_than_2_minutes_def on_delete_set_null_keeps)

lemma delete_where_remaining:
  "r \<in> set (delete_where P tbl) \<Longrightarrow> \<exists>r0\<in>set tbl. \<not> P r0 \<and> r = on_delete_set_null (map row_id (filter P tbl)) r0"
  by (auto simp: delete_where_def)

text \<open>
  Claim C4. \<open>delete_old_messages\<close> deletes exactly the rows whose \<open>created_at\<close> is
  older than the current time minus two minutes: the rows that stay are, in table order,
  the rows that are not older, with their id, content and \<open>created_at\<close> untouched. It
  is idempotent: a second run at the same time point gives the same table, and on a table
  with no such row it changes nothing.
\<close>

theorem delete_old_messages_exact_and_idempotent:
  "map (\<lambda>r. (row_id r, row_content r, row_created_at r)) (delete_old_messages now tbl)
     = map (\<lambda>r. (row_id r, row_content r, row_created_at r))
         (filter (\<lambda>r. \<not> (\<exists>t. row_created_at r = Some t \<and> t < now - 2 * 60 * 1000)) tbl)
   \<and> delete_old_messages now (delete_old_messages now tbl) = delete_old_messages now tbl
   \<and> ((\<forall>r\<in>set tbl. \<not> (\<exists>t. row_created_at r = Some t \<and> t < now - 2 * 60 * 1000))
        \<longrightarrow> delete_old_messages now tbl = tbl)"
proof (intro conjI impI)
  have old: "older_than_2_minutes now r \<longleftrightarrow> (\<exists>t. row_created_at r = Some t \<and> t < now - 2 * 60 * 1000)"
    for r
    by (simp add: older_than_2_minutes_def split: option.split)
  show "map (\<lambda>r. (row_id r, row_content r, row_created_at r)) (delete_old_messages now tbl)
     = map (\<lambda>r. (row_id r, row_content r, row_created_at r))
         (filter (\<lambda>r. \<not> (\<exists>t. row_created_at r = Some t \<and> t < now - 2 * 60 * 1000)) tbl)"
    by (simp add: delete_old_messages_def delete_where_def on_delete_set_null_keeps o_def old)
  have "\<forall>r\<in>set (delete_old_messages now tbl). \<not> older_than_2_minutes now r"
    unfolding delete_old_messages_def
    by (auto dest!: delete_where_remaining simp: older_than_2_minutes_on_delete_set_null)
  then show "delete_old_messages now (delete_old_messages now tbl) = delete_old_messages now tbl"
    unfolding delete_old_messages_def [of now "delete_where (older_than_2_minutes now) tbl"]
    using delete_where_nothing delete_old_messages_def by metis
  show "delete_old_messages now tbl = tbl"
    if "\<forall>r\<in>set tbl. \<not> (\<exists>t. row_created_at r = Some t \<and> t < now - 2 * 60 * 1000)"
    unfolding delete_old_messages_def
    using that by (intro delete_where_nothing) (simp add: old)
qed


theorem delete_old_messages_exact_and_idempotent_witness:
  "delete_old_messages 200000
     [\<lparr>row_id = ''a'', row_content = ''x'', row_created_at = Some 80000, row_reply_to = None\<rparr>,
      \<lparr>row_id = ''b'', row_content = ''y'', row_created_at = Some 79999, row_reply_to = None\<rparr>,
      \<lparr>row_id = ''c'', row_content = ''z'', row_created_at = Some 85000, row_reply_to = Some ''b''\<rparr>]
   = [\<lparr>row_id = ''a'', row_content = ''x'', row_created_at = Some 80000, row_reply_to = None\<rparr>,
      \<lparr>row_id = ''c'', row_content = ''z'', row_created_at = Some 85000, row_reply_to = None\<rparr>]
   \<and> delete_old_messages 200000
     [\<lparr>row_id = ''a'', row_content = ''x'', row_created_at = Some 80000, row_reply_to = None\<rparr>,
      \<lparr>row_id = ''c'', row_content = ''z'', row_created_at = Some 85000, row_reply_to = None\<rparr>]
   = [\<lparr>row_id = ''a'', row_content = ''x'', row_created_at = Some 80000, row_reply_to = None\<rparr>,
      \<lparr>row_id = ''c'', row_content = ''z'', row_created_at = Some 85000, row_reply_to = None\<rparr>]"
proof -
  let ?a = "\<lparr>row_id = ''a'', row_content = ''x'', row_created_at = Some 80000, row_reply_to = None\<rparr>"
  let ?b = "\<lparr>row_id = ''b'', row_content = ''y'', row_created_at = Some 79999, row_reply_to = None\<rparr>"
  let ?c = "\<lparr>row_id = ''c'', row_content = ''z'', row_created_at = Some 85000, row_reply_to = Some ''b''\<rparr>"
  let ?c' = "\<lparr>row_id = ''c'', row_content = ''z'', row_created_at = Some 85000, row_reply_to = None\<rparr>"
  have run: "delete_old_messages 200000 [?a, ?b, ?c] = [?a, ?c']"
    by (simp add: delete_old_messages_def delete_where_def older_than_2_minutes_def
        on_delete_set_null_def)
  have "delete_old_messages 200000 (delete_old_messages 200000 [?a, ?b, ?c])
      = delete_old_messages 200000 [?a, ?b, ?c]"
    by (rule delete_old_messages_exact_and_idempotent [of 200000 "[?a, ?b, ?c]",
          THEN conjunct2, THEN conjunct1])
  then have "delete_old_messages 200000 [?a, ?c'] = [?a, ?c']"
    by (simp only: run)
  with run show ?thesis by (rule conjI)
qed

lemma on_delete_set_null_deleted:
  "on_delete_set_null (map row_id (filter P tbl)) r
     = (case row_reply_to r of
          None \<Rightarrow> r
        | Some i \<Rightarrow>
            if \<exists>x\<in>set tbl. P x \<and> row_id x = i then r\<lparr>row_reply_to := None\<rparr> else r)"
proof -
  have "i \<in> set (map row_id (filter P tbl)) \<longleftrightarrow> (\<exists>x\<in>set tbl. P x \<and> row_id x = i)" for i
    by auto
  then show ?thesis
    unfolding on_delete_set_null_def by (simp split: option.split)
qed

lemma delete_where_map:
  "delete_where P tbl
     = map (\<lambda>r. case row_reply_to r of
                  None \<Rightarrow> r
                | Some i \<Rightarrow>
                    if \<exists>x\<in>set tbl. P x \<and> row_id x = i then r\<lparr>row_reply_to := None\<rparr>
                    else r)
         (filter (\<lambda>r. \<not> P r) tbl)"
  unfolding delete_where_def Let_def on_delete_set_null_deleted [abs_def] ..

lemma delete_where_no_reference:
  assumes "\<exists>x\<in>set tbl. P x \<and> row_id x = d" and "r \<in> set (delete_where P tbl)"
  shows "row_reply_to r \<noteq> Some d"
proof -
  from assms(2) obtain r0 where r0: "r0 \<in> set tbl"
    and r: "r = on_delete_set_null (map row_id (filter P tbl)) r0"
    by (auto simp: delete_where_def)
  show ?thesis
    using assms(1) unfolding r on_delete_set_null_deleted
    by (cases "row_reply_to r0") auto
qed

lemma delete_where_row_gone:
  assumes "distinct (map row_id tbl)" and "\<exists>x\<in>set tbl. P x \<and> row_id x = d"
    and "r \<in> set (delete_where P tbl)"
  shows "row_id r \<noteq> d"
proof
  assume d: "row_id r = d"
  from assms(3) obtain r0 where r0: "r0 \<in> set tbl" "\<not> P r0"
    and r: "r = on_delete_set_null (map row_id (filter P tbl)) r0"
    by (auto simp: delete_where_def)
  from r d have "row_id r0 = d"
    by (simp add: on_delete_set_null_keeps)
  moreover from assms(2) obtain x where x: "x \<in> set tbl" "P x" "row_id x = d"
    by auto
  moreover from assms(1) have "inj_on row_id (set tbl)"
    by (simp add: distinct_map)
  ultimately have "r0 = x"
    using r0(1) by (auto dest: inj_onD)
  with r0(2) x(2) show False by simp
qed

lemma delete_message_present:
  assumes "\<exists>r\<in>set tbl. row_id r = d"
  shows "delete_message d tbl
     = map (\<lambda>r. if row_reply_to r = Some d then r\<lparr>row_reply_to := None\<rparr> else r)
         (filter (\<lambda>r. row_id r \<noteq> d) tbl)"
proof -
  from assms have mem: "i \<in> set (map row_id (filter (\<lambda>r. row_id r = d) tbl)) \<longleftrightarrow> i = d" for i
    by auto
  have "on_delete_set_null (map row_id (filter (\<lambda>r. row_id r = d) tbl)) r
      = (if row_reply_to r = Some d then r\<lparr>row_reply_to := None\<rparr> else r)" for r
    unfolding on_delete_set_null_def mem by (simp split: option.split)
  then show ?thesis
    by (simp add: delete_message_def delete_where_def)
qed

text \<open>
  Claim C6. When the row with id \<open>d\<close> is deleted from the store, the delete-event handler
  of a client removes from its list exactly the messages with id \<open>d\<close> and leaves the
  others as they are, in order. In the store, whatever the deletion (the purge
  \<open>delete_old_messages\<close>, any \<^verbatim>\<open>DELETE ... WHERE P\<close>, or the deletion of the one row
  \<open>d\<close>), the rows that stay are the rows not deleted, with \<open>reply_to\<close> set to null on
  exactly those that referenced a deleted row and nothing else changed; so when \<open>d\<close> is
  among the deleted rows, the row is gone and no remaining row references \<open>d\<close>.
\<close>

theorem delete_removes_from_clients_and_nulls_reply_to:
  "deleteHandler d current = filter (\<lambda>m. msg_id m \<noteq> d) current
   \<and> (\<forall>m\<in>set (deleteHandler d current). msg_id m \<noteq> d)
   \<and> delete_where P tbl
       = map (\<lambda>r. case row_reply_to r of
                    None \<Rightarrow> r
                  | Some i \<Rightarrow>
                      if \<exists>x\<in>set tbl. P x \<and> row_id x = i then r\<lparr>row_reply_to := None\<rparr>
                      else r)
           (filter (\<lambda>r. \<not> P r) tbl)
   \<and> delete_old_messages now tbl
       = map (\<lambda>r. case row_reply_to r of
                    None \<Rightarrow> r
                  | Some i \<Rightarrow>
                      if \<exists>x\<in>set tbl. older_than_2_minutes now x \<and> row_id x = i
                      then r\<lparr>row_reply_to := None\<rparr> else r)
           (filter (\<lambda>r. \<not> older_than_2_minutes now r) tbl)
   \<and> ((\<exists>x\<in>set tbl. P x \<and> row_id x = d) \<longrightarrow>
        (\<forall>r\<in>set (delete_where P tbl). row_reply_to r \<noteq> Some d))
   \<and> ((\<exists>x\<in>set tbl. older_than_2_minutes now x \<and> row_id x = d) \<longrightarrow>
        (\<forall>r\<in>set (delete_old_messages now tbl). row_reply_to r \<noteq> Some d))
   \<and> (distinct (map row_id tbl) \<and> (\<exists>x\<in>set tbl. P x \<and> row_id x = d) \<longrightarrow>
        (\<forall>r\<in>set (delete_where P tbl). row_id r \<noteq> d))
   \<and> (distinct (map row_id tbl) \<and> (\<exists>x\<in>set tbl. older_than_2_minutes now x \<and> row_id x = d) \<longrightarrow>
        (\<forall>r\<in>set (delete_old_messages now tbl). row_id r \<noteq> d))
   \<and> ((\<exists>r\<in>set tbl. row_id r = d) \<longrightarrow>
        delete_message d tbl
          = map (\<lambda>r. if row_reply_to r = Some d then r\<lparr>row_reply_to := None\<rparr> else r)
              (filter (\<lambda>r. row_id r \<noteq> d) tbl))
   \<and> ((\<exists>r\<in>set tbl. row_id r = d) \<longrightarrow>
        (\<forall>r\<in>set (delete_message d tbl). row_id r \<noteq> d \<and> row_reply_to r \<noteq> Some d))"
proof (intro conjI impI ballI)
  show "deleteHandler d current = filter (\<lambda>m. msg_id m \<noteq> d) current"
    by (simp add: deleteHandler_def)
  show "msg_id m \<noteq> d" if "m \<in> set (deleteHandler d current)" for m
    using that by (simp add: deleteHandler_def)
  show "delete_where P tbl
       = map (\<lambda>r. case row_reply_to r of
                    None \<Rightarrow> r
                  | Some i \<Rightarrow>
                      if \<exists>x\<in>set tbl. P x \<and> row_id x = i then r\<lparr>row_reply_to := None\<rparr>
                      else r)
           (filter (\<lambda>r. \<not> P r) tbl)"
    by (rule delete_where_map)
  show "delete_old_messages now tbl
       = map (\<lambda>r. case row_reply_to r of
                    None \<Rightarrow> r
                  | Some i \<Rightarrow>
                      if \<exists>x\<in>set tbl. older_than_2_minutes now x \<and> row_id x = i
                      then r\<lparr>row_reply_to := None\<rparr> else r)
           (filter (\<lambda>r. \<not> older_than_2_minutes now r) tbl)"
    unfolding delete_old_messages_def by (rule delete_where_map)
  show "row_reply_to r \<noteq> Some d"
    if "\<exists>x\<in>set tbl. P x \<and> row_id x = d" "r \<in> set (delete_where P tbl)" for r
    using that by (rule delete_where_no_reference)
  show "row_reply_to r \<noteq> Some d"
    if "\<exists>x\<in>set tbl. older_than_2_minutes now x \<and> row_id x = d"
      "r \<in> set (delete_old_messages now tbl)" for r
    using that unfolding delete_old_messages_def by (rule delete_where_no_reference)
  show "row_id r \<noteq> d"
    if "distinct (map row_id tbl) \<and> (\<exists>x\<in>set tbl. P x \<and> row_id x = d)"
      "r \<in> set (delete_where P tbl)" for r
    using that by (auto dest: delete_where_row_gone [where P = P and d = d and r = r])
  show "row_id r \<noteq> d"
    if "distinct (map row_id tbl) \<and> (\<exists>x\<in>set tbl. older_than_2_minutes now x \<and> row_id x = d)"
      "r \<in> set (delete_old_messages now tbl)" for r
    using that unfolding delete_old_messages_def
    by (auto dest: delete_where_row_gone [where P = "older_than_2_minutes now" and d = d and r = r])
  show "delete_message d tbl
          = map (\<lambda>r. if row_reply_to r = Some d then r\<lparr>row_reply_to := None\<rparr> else r)
              (filter (\<lambda>r. row_id r \<noteq> d) tbl)"
    if "\<exists>r\<in>set tbl. row_id r = d"
    using that by (rule delete_message_present)
  show "row_id r \<noteq> d" if "\<exists>r\<in>set tbl. row_id r = d" "r \<in> set (delete_message d tbl)" for r
    using that(2) unfolding delete_message_present [OF that(1)] by auto
  show "row_reply_to r \<noteq> Some d"
    if "\<exists>r\<in>set tbl. row_id r = d" "r \<in> set (delete_message d tbl)" for r
    using that(2) unfolding delete_message_present [OF that(1)] by auto
qed

theorem delete_removes_from_clients_and_nulls_reply_to_witness:
  "delete_old_messages 200000
     [\<lparr>row_id = ''a'', row_content = ''x'', row_created_at = Some 79000, row_reply_to = None\<rparr>,
      \<lparr>row_id = ''b'', row_content = ''y'', row_created_at = Some 79999, row_reply_to = Some ''a''\<rparr>,
      \<lparr>row_id = ''c'', row_content = ''z'', row_created_at = Some 85000, row_reply_to = Some ''b''\<rparr>,
      \<lparr>row_id = ''e'', row_content = ''v'', row_created_at = Some 86000, row_reply_to = Some ''a''\<rparr>,
      \<lparr>row_id = ''f'', row_content = ''w'', row_created_at = Some 87000, row_reply_to = Some ''c''\<rparr>]
   = [\<lparr>row_id = ''c'', row_content = ''z'', row_created_at = Some 85000, row_reply_to = None\<rparr>,
      \<lparr>row_id = ''e'', row_content = ''v'', row_created_at = Some 86000, row_reply_to = None\<rparr>,
      \<lparr>row_id = ''f'', row_content = ''w'', row_created_at = Some 87000, row_reply_to = Some ''c''\<rparr>]
   \<and> delete_message ''b''
     [\<lparr>row_id = ''a'', row_content = ''x'', row_created_at = Some 80000, row_reply_to = None\<rparr>,
      \<lparr>row_id = ''b'', row_content = ''y'', row_created_at = Some 79999, row_reply_to = Some ''a''\<rparr>,
      \<lparr>row_id = ''c'', row_content = ''z'', row_created_at = Some 85000, row_reply_to = Some ''b''\<rparr>]
   = [\<lparr>row_id = ''a'', row_content = ''x'', row_created_at = Some 80000, row_reply_to = None\<rparr>,
      \<lparr>row_id = ''c'', row_content = ''z'', row_created_at = Some 85000, row_reply_to = None\<rparr>]"
proof -
  let ?a = "\<lparr>row_id = ''a'', row_content = ''x'', row_created_at = Some 79000, row_reply_to = None\<rparr>"
  let ?b = "\<lparr>row_id = ''b'', row_content = ''y'', row_created_at = Some 79999, row_reply_to = Some ''a''\<rparr>"
  let ?c = "\<lparr>row_id = ''c'', row_content = ''z'', row_created_at = Some 85000, row_reply_to = Some ''b''\<rparr>"
  let ?e = "\<lparr>row_id = ''e'', row_content = ''v'', row_created_at = Some 86000, row_reply_to = Some ''a''\<rparr>"
  let ?f = "\<lparr>row_id = ''f'', row_content = ''w'', row_created_at = Some 87000, row_reply_to = Some ''c''\<rparr>"
  let ?a' = "\<lparr>row_id = ''a'', row_content = ''x'', row_created_at = Some 80000, row_reply_to = None\<rparr>"
  have "delete_old_messages 200000 [?a, ?b, ?c, ?e, ?f]
       = map (\<lambda>r. case row_reply_to r of
                    None \<Rightarrow> r
                  | Some i \<Rightarrow>
                      if \<exists>x\<in>set [?a, ?b, ?c, ?e, ?f]. older_than_2_minutes 200000 x \<and> row_id x = i
                      then r\<lparr>row_reply_to := None\<rparr> else r)
           (filter (\<lambda>r. \<not> older_than_2_minutes 200000 r) [?a, ?b, ?c, ?e, ?f])"
    by (rule delete_removes_from_clients_and_nulls_reply_to
          [of _ "[]" _ "[?a, ?b, ?c, ?e, ?f]" 200000,
           THEN conjunct2, THEN conjunct2, THEN conjunct2, THEN conjunct1])
  then have 1: "delete_old_messages 200000 [?a, ?b, ?c, ?e, ?f]
      = [?c\<lparr>row_reply_to := None\<rparr>, ?e\<lparr>row_reply_to := None\<rparr>, ?f]"
    by (simp add: older_than_2_minutes_def)
  have present: "\<exists>r\<in>set [?a', ?b, ?c]. row_id r = ''b''" by simp
  have "delete_message ''b'' [?a', ?b, ?c]
          = map (\<lambda>r. if row_reply_to r = Some ''b'' then r\<lparr>row_reply_to := None\<rparr> else r)
              (filter (\<lambda>r. row_id r \<noteq> ''b'') [?a', ?b, ?c])"
    by (rule delete_removes_from_clients_and_nulls_reply_to
          [of "''b''" "[]" _ "[?a', ?b, ?c]",
           THEN conjunct2, THEN conjunct2, THEN conjunct2, THEN conjunct2, THEN conjunct2,
           THEN conjunct2, THEN conjunct2, THEN conjunct2, THEN conjunct1, THEN mp, OF present])
  then have 2: "delete_message ''b'' [?a', ?b, ?c] = [?a', ?c\<lparr>row_reply_to := None\<rparr>]"
    by simp
  from 1 2 show ?thesis by simp
qed

section \<open>The initial fetch: properties\<close>

lemma set_insert_desc: "set (insert_desc r xs) = insert r (set xs)"
  by (induction xs) auto

lemma length_insert_desc: "length (insert_desc r xs) = Suc (length xs)"
  by (induction xs) auto

lemma set_order_created_at_desc: "set (order_created_at_desc rows) = set rows"
  unfolding order_created_at_desc_def
  by (induction rows) (simp_all add: set_insert_desc)

lemma not_after_total: "\<not> not_after a b \<Longrightarrow> not_after b a"
  by (auto simp: not_after_def split: option.splits)

lemma not_after_trans: "not_after a b \<Longrightarrow> not_after b c \<Longrightarrow> not_after a c"
  by (auto simp: not_after_def split: option.splits)

lemma sorted_insert_desc:
  "sorted_wrt not_after xs \<Longrightarrow> sorted_wrt not_after (insert_desc r xs)"
proof (induction xs)
  case Nil
  then show ?case by simp
next
  case (Cons x xs)
  show ?case
  proof (cases "not_after r x")
    case True
    with Cons.prems show ?thesis
      by (auto intro: not_after_trans)
  next
    case False
    then have "not_after x r" by (rule not_after_total)
    with False Cons show ?thesis
      by (auto simp: set_insert_desc)
  qed
qed

lemma sorted_order_created_at_desc: "sorted_wrt not_after (order_created_at_desc rows)"
  unfolding order_created_at_desc_def
  by (induction rows) (simp_all add: sorted_insert_desc)

lemma length_order_created_at_desc: "length (order_created_at_desc rows) = length rows"
  unfolding order_created_at_desc_def
  by (induction rows) (simp_all add: length_insert_desc)

lemma fetchMessages_query_subset:
  "set (fetchMessages_query now tbl) \<subseteq> {r \<in> set tbl. gte_created_at (now - 2 * 60 * 1000) r}"
proof -
  have "set (fetchMessages_query now tbl)
      \<subseteq> set (order_created_at_desc (filter (gte_created_at (now - 2 * 60 * 1000)) tbl))"
    unfolding fetchMessages_query_def Let_def by (rule set_take_subset)
  then show ?thesis
    by (simp add: set_order_created_at_desc)
qed

lemma gte_created_at_message:
  "gte_created_at bound r \<Longrightarrow> bound \<le> created_at (message_of_row r)"
  by (auto simp: gte_created_at_def message_of_row_def split: option.splits)

lemma not_after_message:
  "gte_created_at bound a \<Longrightarrow> gte_created_at bound b \<Longrightarrow> not_after a b
    \<Longrightarrow> created_at (message_of_row b) \<le> created_at (message_of_row a)"
  by (auto simp: gte_created_at_def not_after_def message_of_row_def split: option.splits)

lemma fetchMessages_query_sorted: "sorted_wrt not_after (fetchMessages_query now tbl)"
  unfolding fetchMessages_query_def Let_def
  by (rule sorted_wrt_take) (rule sorted_order_created_at_desc)

lemma fetchMessages_messages:
  "messages (fetchMessages now tbl s) = map message_of_row (fetchMessages_query now tbl)"
  by (simp add: fetchMessages_def fetchMessages_settle_def)

text \<open>
  Claim C5. On success the initial fetch replaces the local list by exactly the result of
  the query: at most 100 messages (the eligible rows when there are fewer, 100
  otherwise), each read from a row of the table, each with \<open>created_at\<close> greater than or
  equal to the current time minus two minutes, ordered by \<open>created_at\<close> descending.
\<close>

theorem fetchMessages_recent_newest_first_at_most_100:
  "messages (fetchMessages now tbl s) = map message_of_row (fetchMessages_query now tbl)
   \<and> length (messages (fetchMessages now tbl s)) \<le> 100
   \<and> length (messages (fetchMessages now tbl s))
        = min 100 (length (filter (gte_created_at (now - 2 * 60 * 1000)) tbl))
   \<and> set (fetchMessages_query now tbl) \<subseteq> set tbl
   \<and> (\<forall>m\<in>set (messages (fetchMessages now tbl s)). now - 2 * 60 * 1000 \<le> created_at m)
   \<and> sorted_wrt (\<lambda>a b. created_at b \<le> created_at a) (messages (fetchMessages now tbl s))"
proof (intro conjI)
  let ?q = "fetchMessages_query now tbl"
  have sub: "set ?q \<subseteq> {r \<in> set tbl. gte_created_at (now - 2 * 60 * 1000) r}"
    by (rule fetchMessages_query_subset)
  show "messages (fetchMessages now tbl s) = map message_of_row ?q"
    by (rule fetchMessages_messages)
  show "length (messages (fetchMessages now tbl s)) \<le> 100"
    by (simp add: fetchMessages_messages fetchMessages_query_def Let_def)
  show "length (messages (fetchMessages now tbl s))
        = min 100 (length (filter (gte_created_at (now - 2 * 60 * 1000)) tbl))"
    by (simp add: fetchMessages_messages fetchMessages_query_def Let_def
        length_order_created_at_desc)
  show "set ?q \<subseteq> set tbl"
    using sub by auto
  show "\<forall>m\<in>set (messages (fetchMessages now tbl s)). now - 2 * 60 * 1000 \<le> created_at m"
    using sub by (auto simp: fetchMessages_messages dest!: subsetD intro: gte_created_at_message)
  have "sorted_wrt (\<lambda>a b. created_at (message_of_row b) \<le> created_at (message_of_row a)) ?q"
  proof (rule sorted_wrt_mono_rel [OF _ fetchMessages_query_sorted])
    fix a b
    assume "a \<in> set ?q" "b \<in> set ?q" "not_after a b"
    with sub show "created_at (message_of_row b) \<le> created_at (message_of_row a)"
      by (auto intro: not_after_message)
  qed
  then show "sorted_wrt (\<lambda>a b. created_at b \<le> created_at a) (messages (fetchMessages now tbl s))"
    by (simp add: fetchMessages_messages sorted_wrt_map)
qed


theorem fetchMessages_recent_newest_first_at_most_100_witness:
  "messages (fetchMessages 200000
     [\<lparr>row_id = ''a'', row_content = ''x'', row_created_at = Some 80000, row_reply_to = None\<rparr>,
      \<lparr>row_id = ''b'', row_content = ''y'', row_created_at = Some 79999, row_reply_to = None\<rparr>,
      \<lparr>row_id = ''c'', row_content = ''z'', row_created_at = None, row_reply_to = None\<rparr>,
      \<lparr>row_id = ''d'', row_content = ''v'', row_created_at = Some 90000, row_reply_to = Some ''a''\<rparr>,
      \<lparr>row_id = ''e'', row_content = ''w'', row_created_at = Some 85000, row_reply_to = Some ''b''\<rparr>]
     initial_state)
   = [\<lparr>msg_id = ''d'', content = ''v'', created_at = 90000, reply_to = Some ''a''\<rparr>,
      \<lparr>msg_id = ''e'', content = ''w'', created_at = 85000, reply_to = Some ''b''\<rparr>,
      \<lparr>msg_id = ''a'', content = ''x'', created_at = 80000, reply_to = None\<rparr>]"
proof -
  let ?tbl = "[\<lparr>row_id = ''a'', row_content = ''x'', row_created_at = Some 80000, row_reply_to = None\<rparr>,
      \<lparr>row_id = ''b'', row_content = ''y'', row_created_at = Some 79999, row_reply_to = None\<rparr>,
      \<lparr>row_id = ''c'', row_content = ''z'', row_created_at = None, row_reply_to = None\<rparr>,
      \<lparr>row_id = ''d'', row_content = ''v'', row_created_at = Some 90000, row_reply_to = Some ''a''\<rparr>,
      \<lparr>row_id = ''e'', row_content = ''w'', row_created_at = Some 85000, row_reply_to = Some ''b''\<rparr>]"
  have q: "fetchMessages_query 200000 ?tbl
     = [\<lparr>row_id = ''d'', row_content = ''v'', row_created_at = Some 90000, row_reply_to = Some ''a''\<rparr>,
        \<lparr>row_id = ''e'', row_content = ''w'', row_created_at = Some 85000, row_reply_to = Some ''b''\<rparr>,
        \<lparr>row_id = ''a'', row_content = ''x'', row_created_at = Some 80000, row_reply_to = None\<rparr>]"
    by (simp add: fetchMessages_query_def order_created_at_desc_def gte_created_at_def
        not_after_def)
  have "messages (fetchMessages 200000 ?tbl initial_state)
      = map message_of_row (fetchMessages_query 200000 ?tbl)"
    by (rule fetchMessages_recent_newest_first_at_most_100 [of 200000 ?tbl initial_state,
          THEN conjunct1])
  then show ?thesis
    by (simp add: q message_of_row_def)
qed

end
